theory Spec2Isabelle
  imports Main "HOL-Library.Sublist"
begin

section \<open>Strings and character classes\<close>

text \<open>
  A JavaScript string is modelled as a \<open>string\<close>: a list of 8-bit characters, standing for
  the code units 0..255. Literal texts of the analyzer that contain symbols beyond ASCII
  (the icons in front of messages) are written as the bytes of the source file.
\<close>

definition code :: "char \<Rightarrow> nat" where
  "code c = of_char c"

definition nl :: char where
  "nl = CHR 0x0A"

text \<open>The class \<open>\s\<close>: tab, line feed, vertical tab, form feed, carriage return, space, no-break space.\<close>

definition js_space :: "char \<Rightarrow> bool" where
  "js_space c = (code c \<in> set [9, 10, 11, 12, 13, 32, 160])"

text \<open>The class \<open>\d\<close>.\<close>

definition js_digit :: "char \<Rightarrow> bool" where
  "js_digit c = (48 \<le> code c \<and> code c \<le> 57)"

text \<open>The class \<open>\w\<close>: letters, digits and the underscore.\<close>

definition js_word :: "char \<Rightarrow> bool" where
  "js_word c = ((97 \<le> code c \<and> code c \<le> 122) \<or> (65 \<le> code c \<and> code c \<le> 90)
                 \<or> js_digit c \<or> code c = 95)"

text \<open>Line terminators among the code units 0..255: line feed and carriage return.\<close>

definition line_term :: "char \<Rightarrow> bool" where
  "line_term c = (code c = 10 \<or> code c = 13)"

text \<open>
  \<open>String.prototype.toLowerCase\<close> on a single code unit below 256, and the
  canonicalisation by which a pattern with the \<open>i\<close> flag compares characters: the upper
  case of the character where that is a single code unit. The two letters whose upper
  case lies beyond 255 (0xB5, 0xFF) and the sharp s have no partner below 256 and stay
  as they are.
\<close>

definition toLowerCase_char :: "char \<Rightarrow> char" where
  "toLowerCase_char c =
     (if (65 \<le> code c \<and> code c \<le> 90) \<or> (192 \<le> code c \<and> code c \<le> 222 \<and> code c \<noteq> 215)
      then char_of (code c + 32) else c)"

definition canonicalize :: "char \<Rightarrow> char" where
  "canonicalize c =
     (if (97 \<le> code c \<and> code c \<le> 122) \<or> (224 \<le> code c \<and> code c \<le> 254 \<and> code c \<noteq> 247)
      then char_of (code c - 32) else c)"

definition toLowerCase :: "string \<Rightarrow> string" where
  "toLowerCase s = map toLowerCase_char s"

text \<open>\<open>s.split(d)\<close> for a one-character separator: never the empty list.\<close>

fun split_on :: "char \<Rightarrow> string \<Rightarrow> string list" where
  "split_on d [] = [[]]"
| "split_on d (c # cs) =
     (if c = d then [] # split_on d cs
      else (case split_on d cs of
              [] \<Rightarrow> [[c]]
            | x # xs \<Rightarrow> (c # x) # xs))"

text \<open>Decimal rendering of a number inside a template literal.\<close>

fun digits :: "nat \<Rightarrow> string" where
  "digits n = (if n < 10 then [char_of (48 + n)] else digits (n div 10) @ [char_of (48 + n mod 10)])"

section \<open>Regular expressions\<close>

text \<open>
  The patterns of the analyzer use literals, the dot, character classes, grouping,
  alternation, greedy and lazy bounded repetition, the anchors \<open>^\<close> and \<open>$\<close>, the word
  boundary \<open>\b\<close> and one negative lookahead; no back-references. The flags that matter
  for matching are \<open>i\<close>, \<open>m\<close> and \<open>s\<close>; \<open>g\<close> makes the pattern object keep \<open>lastIndex\<close>.

  \<open>Lit\<close> is a run of literal characters, \<open>Cls neg items\<close> a character class (negated when
  \<open>neg\<close>), \<open>Rep min max greedy r\<close> the quantifier \<open>{min,max}\<close> (no \<open>max\<close>: unbounded; not
  \<open>greedy\<close>: lazy), \<open>Bol\<close> and \<open>Eol\<close> the anchors, \<open>WordB\<close> the word boundary and
  \<open>NotAhead r\<close> the lookahead \<open>(?!r)\<close>.
\<close>

datatype citem = CC char | ClsS | ClsNS | ClsW | ClsD

datatype regex =
    Lit string
  | Dot
  | Cls bool "citem list"
  | Seq regex regex
  | Alt regex regex
  | Rep nat "nat option" bool regex
  | Bol
  | Eol
  | WordB
  | NotAhead regex

record reflags =
  ignoreCase :: bool
  multiline :: bool
  dotAll :: bool

definition seqs :: "regex list \<Rightarrow> regex" where
  "seqs rs = foldr Seq rs (Lit [])"

definition alts :: "regex list \<Rightarrow> regex" where
  "alts rs = foldr Alt (butlast rs) (last rs)"

definition Star :: "regex \<Rightarrow> regex" where
  "Star r = Rep 0 None True r"

definition LazyStar :: "regex \<Rightarrow> regex" where
  "LazyStar r = Rep 0 None False r"

definition Plus :: "regex \<Rightarrow> regex" where
  "Plus r = Rep 1 None True r"

definition Opt :: "regex \<Rightarrow> regex" where
  "Opt r = Rep 0 (Some 1) True r"

definition AtLeast :: "nat \<Rightarrow> regex \<Rightarrow> regex" where
  "AtLeast k r = Rep k None True r"

definition UpTo :: "nat \<Rightarrow> regex \<Rightarrow> regex" where
  "UpTo k r = Rep 0 (Some k) True r"

text \<open>\<open>\s\<close>, \<open>\w\<close>, \<open>\d\<close> and \<open>[\s\S]\<close>.\<close>

definition Sp :: regex where
  "Sp = Cls False [ClsS]"

definition Wd :: regex where
  "Wd = Cls False [ClsW]"

definition Dg :: regex where
  "Dg = Cls False [ClsD]"

definition AnyChar :: regex where
  "AnyChar = Cls False [ClsS, ClsNS]"

definition citem_has :: "citem \<Rightarrow> char \<Rightarrow> bool" where
  "citem_has it c =
     (case it of
        CC a \<Rightarrow> c = a
      | ClsS \<Rightarrow> js_space c
      | ClsNS \<Rightarrow> \<not> js_space c
      | ClsW \<Rightarrow> js_word c
      | ClsD \<Rightarrow> js_digit c)"

text \<open>
  Under \<open>i\<close> two characters match when their canonical (upper-case) forms agree, so a
  character is in a class when it or its other-case form is.
\<close>

definition chr_eq :: "reflags \<Rightarrow> char \<Rightarrow> char \<Rightarrow> bool" where
  "chr_eq fl a c = (if ignoreCase fl then canonicalize a = canonicalize c else a = c)"

definition cls_has :: "reflags \<Rightarrow> citem list \<Rightarrow> char \<Rightarrow> bool" where
  "cls_has fl items c =
     (if ignoreCase fl
      then list_ex (\<lambda>x. list_ex (\<lambda>it. citem_has it x) items) [c, canonicalize c, toLowerCase_char c]
      else list_ex (\<lambda>it. citem_has it c) items)"

definition lit_at :: "reflags \<Rightarrow> string \<Rightarrow> string \<Rightarrow> nat \<Rightarrow> bool" where
  "lit_at fl cs s i =
     (i + length cs \<le> length s \<and> list_all2 (chr_eq fl) cs (take (length cs) (drop i s)))"

definition dec_max :: "nat option \<Rightarrow> nat option" where
  "dec_max mx = map_option (\<lambda>k. k - 1) mx"

text \<open>
  Repetition, as the backtracking matcher explores it. The result lists the end
  positions in the order in which the matcher tries them: a greedy repetition tries
  one more round first, a lazy one tries to stop first. Once the minimum is reached a
  round that consumes nothing is rejected. \<open>f\<close> is the matcher of the repeated
  expression and \<open>n\<close> the length of the subject, beyond which no position lies.
\<close>

function rep :: "(nat \<Rightarrow> nat list) \<Rightarrow> bool \<Rightarrow> nat \<Rightarrow> nat option \<Rightarrow> nat \<Rightarrow> nat \<Rightarrow> nat list" where
  "rep f g mn mx n i =
    (if mx = Some 0 then [i]
     else if 0 < mn then concat (map (rep f g (mn - 1) (dec_max mx) n) (f i))
     else let more = concat (map (rep f g 0 (dec_max mx) n)
                                  (filter (\<lambda>j. i < j \<and> j \<le> n) (f i)))
          in if g then more @ [i] else i # more)"
  by pat_completeness auto
termination
  by (relation "measures [\<lambda>(f, g, mn, mx, n, i). mn, \<lambda>(f, g, mn, mx, n, i). n - i]") auto

declare rep.simps [simp del]

text \<open>
  \<open>ends fl s r i\<close>: the end positions of the matches of \<open>r\<close> in \<open>s\<close> that start at
  position \<open>i\<close>, in the matcher's order of preference.
\<close>

primrec ends :: "reflags \<Rightarrow> string \<Rightarrow> regex \<Rightarrow> nat \<Rightarrow> nat list" where
  "ends fl s (Lit cs) = (\<lambda>i. if lit_at fl cs s i then [i + length cs] else [])"
| "ends fl s Dot = (\<lambda>i. if i < length s \<and> (dotAll fl \<or> \<not> line_term (s ! i)) then [Suc i] else [])"
| "ends fl s (Cls neg items) =
     (\<lambda>i. if i < length s \<and> (cls_has fl items (s ! i) \<noteq> neg) then [Suc i] else [])"
| "ends fl s (Seq a b) = (\<lambda>i. concat (map (ends fl s b) (ends fl s a i)))"
| "ends fl s (Alt a b) = (\<lambda>i. ends fl s a i @ ends fl s b i)"
| "ends fl s (Rep mn mx g r) = rep (ends fl s r) g mn mx (length s)"
| "ends fl s Bol =
     (\<lambda>i. if i = 0 \<or> (multiline fl \<and> i \<le> length s \<and> line_term (s ! (i - 1))) then [i] else [])"
| "ends fl s Eol =
     (\<lambda>i. if i = length s \<or> (multiline fl \<and> i < length s \<and> line_term (s ! i)) then [i] else [])"
| "ends fl s WordB =
     (\<lambda>i. if (0 < i \<and> i \<le> length s \<and> js_word (s ! (i - 1))) \<noteq> (i < length s \<and> js_word (s ! i))
          then [i] else [])"
| "ends fl s (NotAhead r) = (\<lambda>i. if ends fl s r i = [] then [i] else [])"

text \<open>The first start position, from the left, at which there is a match, with its end.\<close>

fun first_end :: "(nat \<Rightarrow> nat list) \<Rightarrow> nat list \<Rightarrow> (nat \<times> nat) option" where
  "first_end f [] = None"
| "first_end f (i # is) = (case f i of [] \<Rightarrow> first_end f is | e # _ \<Rightarrow> Some (i, e))"

text \<open>\<open>exec\<close> from position 0: the bounds of the leftmost match, if any.\<close>

definition re_exec :: "reflags \<Rightarrow> regex \<Rightarrow> string \<Rightarrow> (nat \<times> nat) option" where
  "re_exec fl r s = first_end (ends fl s r) [0..<Suc (length s)]"

text \<open>\<open>test\<close> of a pattern without the \<open>g\<close> flag: no state is kept.\<close>

definition re_test :: "reflags \<Rightarrow> regex \<Rightarrow> string \<Rightarrow> bool" where
  "re_test fl r s = (re_exec fl r s \<noteq> None)"

definition no_flags :: reflags where
  "no_flags = \<lparr>ignoreCase = False, multiline = False, dotAll = False\<rparr>"

definition flags_i :: reflags where
  "flags_i = \<lparr>ignoreCase = True, multiline = False, dotAll = False\<rparr>"

definition flags_m :: reflags where
  "flags_m = \<lparr>ignoreCase = False, multiline = True, dotAll = False\<rparr>"

definition flags_ms :: reflags where
  "flags_ms = \<lparr>ignoreCase = False, multiline = True, dotAll = True\<rparr>"

section \<open>Severities, findings and rules\<close>

datatype severity = Info | Warning | Error

text \<open>The table \<open>SEVERITY = { info: 0, warning: 1, error: 2 }\<close> at its own keys.\<close>

fun SEVERITY :: "severity \<Rightarrow> nat" where
  "SEVERITY Info = 0"
| "SEVERITY Warning = 1"
| "SEVERITY Error = 2"

definition severity_of_string :: "string \<Rightarrow> severity option" where
  "severity_of_string k =
     (if k = ''info'' then Some Info
      else if k = ''warning'' then Some Warning
      else if k = ''error'' then Some Error
      else None)"

text \<open>
  What a property read on an object literal can give: a number stored under one of its
  own keys, a member inherited from \<open>Object.prototype\<close> (a function or an object), or
  \<open>undefined\<close>.
\<close>

datatype jsval = Num nat | Inherited | Undefined

definition object_prototype_keys :: "string list" where
  "object_prototype_keys =
     [''constructor'', ''__proto__'', ''hasOwnProperty'', ''isPrototypeOf'',
      ''propertyIsEnumerable'', ''toLocaleString'', ''toString'', ''valueOf'',
      ''__defineGetter__'', ''__defineSetter__'', ''__lookupGetter__'', ''__lookupSetter__'']"

text \<open>\<open>SEVERITY[k]\<close> for a key given by the caller.\<close>

definition SEVERITY_get :: "string \<Rightarrow> jsval" where
  "SEVERITY_get k =
     (case severity_of_string k of
        Some v \<Rightarrow> Num (SEVERITY v)
      | None \<Rightarrow> if k \<in> set object_prototype_keys then Inherited else Undefined)"

text \<open>\<open>v || 0\<close>: an inherited member is truthy and stays; \<open>undefined\<close> and 0 give 0.\<close>

definition or_zero :: "jsval \<Rightarrow> jsval" where
  "or_zero v = (case v of Num n \<Rightarrow> Num n | Inherited \<Rightarrow> Inherited | Undefined \<Rightarrow> Num 0)"

text \<open>
  \<open>a < v\<close> for a number \<open>a\<close>: an inherited member or \<open>undefined\<close> converts to NaN, and
  every comparison with NaN is false.
\<close>

definition num_lt :: "nat \<Rightarrow> jsval \<Rightarrow> bool" where
  "num_lt a v = (case v of Num b \<Rightarrow> a < b | Inherited \<Rightarrow> False | Undefined \<Rightarrow> False)"

record finding =
  ruleId :: string
  ruleName :: string
  severity :: severity
  line :: nat
  message :: string
  suggestion :: string

text \<open>What a block rule's \<open>check\<close> returns for one issue: \<open>{ line, message, suggestion }\<close>.\<close>

record block_issue =
  bline :: nat
  bmessage :: string
  bsuggestion :: string

text \<open>
  A rule is either a line rule (pattern with its flags, message, suggestion, optional
  \<open>contextFilter(line, filepath)\<close>) or a block rule (\<open>isBlockRule\<close> with its \<open>check\<close>).
  Every pattern of the table carries the \<open>g\<close> flag.
\<close>

datatype matcher =
    LineRule regex reflags string string "(string \<Rightarrow> string \<Rightarrow> bool) option"
  | BlockRule "string list \<Rightarrow> block_issue list"

record rule =
  rid :: string
  rname :: string
  rseverity :: severity
  languages :: "string list"
  rmatcher :: matcher

definition sq :: char where
  "sq = CHR 0x27"

definition dq :: char where
  "dq = CHR 0x22"

definition bq :: char where
  "bq = CHR 0x60"

subsection \<open>Messages and suggestions\<close>

definition SEC001_message :: string where
  "SEC001_message = [CHR 0xF0, CHR 0x9F, CHR 0x94, CHR 0xB4] @ '' **SQL Injection Risk**: String interpolation in SQL query. Use parameterized queries instead.''"

definition SEC001_suggestion :: string where
  "SEC001_suggestion = ''Use parameterized queries: `db.query(\"SELECT * FROM users WHERE id = ?\", [userId])`''"

definition SEC002_message :: string where
  "SEC002_message = [CHR 0xF0, CHR 0x9F, CHR 0x94, CHR 0xB4] @ '' **Dangerous eval()**: `eval()` executes arbitrary code and is a major security risk.''"

definition SEC002_suggestion :: string where
  "SEC002_suggestion = ''Use `JSON.parse()` for JSON, `new Function()` if absolutely necessary, or refactor to avoid dynamic code execution.''"

definition SEC003_message :: string where
  "SEC003_message = [CHR 0xF0, CHR 0x9F, CHR 0x94, CHR 0xB4] @ '' **Hardcoded Secret**: Credentials should never be hardcoded. Use environment variables.''"

definition SEC003_suggestion :: string where
  "SEC003_suggestion = ''Use `process.env.SECRET_NAME` or a secrets manager like AWS Secrets Manager, Vault, etc.''"

definition SEC004_message :: string where
  "SEC004_message = [CHR 0xF0, CHR 0x9F, CHR 0x94, CHR 0xB4] @ '' **Path Traversal Risk**: User input used in file path without sanitization.''"

definition SEC004_suggestion :: string where
  "SEC004_suggestion = ''Validate and sanitize file paths. Use `path.resolve()` and check the result stays within the expected directory.''"

definition SEC005_message :: string where
  "SEC005_message = [CHR 0xF0, CHR 0x9F, CHR 0x94, CHR 0xB4] @ '' **XSS Risk**: Setting `innerHTML` with dynamic content can lead to cross-site scripting.''"

definition SEC005_suggestion :: string where
  "SEC005_suggestion = ''Use `textContent` for text, or sanitize HTML with DOMPurify before using innerHTML.''"

definition SEC006_message :: string where
  "SEC006_message = [CHR 0xF0, CHR 0x9F, CHR 0x94, CHR 0xB4] @ '' **Command Injection Risk**: User input in shell command without proper escaping.''"

definition SEC006_suggestion :: string where
  "SEC006_suggestion = ''Use array-form of exec (e.g., `execFile`) or properly escape shell arguments.''"

definition SEC007_message :: string where
  "SEC007_message = [CHR 0xE2, CHR 0x9A, CHR 0xA0, CHR 0xEF, CHR 0xB8, CHR 0x8F] @ '' **Insecure Randomness**: `Math.random()` is not cryptographically secure.''"

definition SEC007_suggestion :: string where
  "SEC007_suggestion = ''For security-sensitive operations, use `crypto.randomBytes()` or `crypto.getRandomValues()`.''"

definition SEC008_message :: string where
  "SEC008_message = [CHR 0xF0, CHR 0x9F, CHR 0x94, CHR 0xB4] @ '' **SSL Verification Disabled**: This makes connections vulnerable to man-in-the-middle attacks.''"

definition SEC008_suggestion :: string where
  "SEC008_suggestion = ''Enable SSL verification in production. Only disable for local development if absolutely necessary.''"

definition BUG001_message :: string where
  "BUG001_message = [CHR 0xE2, CHR 0x9A, CHR 0xA0, CHR 0xEF, CHR 0xB8, CHR 0x8F] @ '' **Loose Equality**: `==` performs type coercion. Use `===` for strict comparison.''"

definition BUG001_suggestion :: string where
  "BUG001_suggestion = ''Replace `==` with `===` and `!=` with `!==` to avoid unexpected type coercion.''"

definition BUG002_message :: string where
  "BUG002_message = [CHR 0xE2, CHR 0x9A, CHR 0xA0, CHR 0xEF, CHR 0xB8, CHR 0x8F] @ '' **Floating Point Comparison**: Direct comparison of floating-point numbers is unreliable.''"

definition BUG002_suggestion :: string where
  "BUG002_suggestion = ''Use `Math.abs(a - b) < Number.EPSILON` or a tolerance-based comparison.''"

definition BUG003_message :: string where
  "BUG003_message = [CHR 0xE2, CHR 0x9A, CHR 0xA0, CHR 0xEF, CHR 0xB8, CHR 0x8F] @ '' **Possible Missing await**: This async operation may need `await` to work correctly.''"

definition BUG003_suggestion :: string where
  "BUG003_suggestion = ''If this function returns a Promise, add `await` to ensure proper execution order.''"

definition BUG004_message :: string where
  "BUG004_message = [CHR 0xE2, CHR 0x9A, CHR 0xA0, CHR 0xEF, CHR 0xB8, CHR 0x8F] @ '' **Empty Catch Block**: Silently swallowing errors makes debugging impossible.''"

definition BUG004_suggestion :: string where
  "BUG004_suggestion = ''At minimum, log the error: `catch (e) { console.error(e); }` or handle it properly.''"

definition BUG005_message :: string where
  "BUG005_message = [CHR 0xE2, CHR 0x84, CHR 0xB9, CHR 0xEF, CHR 0xB8, CHR 0x8F] @ '' **Console.log**: Consider removing console.log from production code.''"

definition BUG005_suggestion :: string where
  "BUG005_suggestion = ''Use a proper logger (winston, pino) or remove before deploying.''"

definition BUG006_message :: string where
  "BUG006_message = [CHR 0xE2, CHR 0x84, CHR 0xB9, CHR 0xEF, CHR 0xB8, CHR 0x8F] @ '' **Technical Debt**: Found a TODO/FIXME comment that should be tracked.''"

definition BUG006_suggestion :: string where
  "BUG006_suggestion = ''Create a GitHub issue to track this technical debt item.''"

definition PERF001_message :: string where
  "PERF001_message = [CHR 0xE2, CHR 0x9A, CHR 0xA0, CHR 0xEF, CHR 0xB8, CHR 0x8F] @ '' **N+1 Query**: Database query inside a loop causes performance issues.''"

definition PERF001_suggestion :: string where
  "PERF001_suggestion = ''Batch queries outside the loop, or use eager loading / JOINs.''"

definition PERF002_message :: string where
  "PERF002_message = [CHR 0xE2, CHR 0x9A, CHR 0xA0, CHR 0xEF, CHR 0xB8, CHR 0x8F] @ '' **Synchronous I/O**: Blocking I/O operations can freeze the event loop.''"

definition PERF002_suggestion :: string where
  "PERF002_suggestion = ''Use async versions (e.g., `fs.promises.readFile`) to avoid blocking.''"

definition PERF003_message :: string where
  "PERF003_message = [CHR 0xE2, CHR 0x9A, CHR 0xA0, CHR 0xEF, CHR 0xB8, CHR 0x8F] @ '' **Unbounded Array Growth**: Array growing in infinite loop can cause memory exhaustion.''"

definition PERF003_suggestion :: string where
  "PERF003_suggestion = ''Add a maximum size check or use a bounded data structure.''"

definition PERF004_message :: string where
  "PERF004_message = [CHR 0xE2, CHR 0x84, CHR 0xB9, CHR 0xEF, CHR 0xB8, CHR 0x8F] @ '' **Regex in Loop**: Creating regex inside a loop is inefficient.''"

definition PERF004_suggestion :: string where
  "PERF004_suggestion = ''Compile the regex once outside the loop.''"

definition PY001_message :: string where
  "PY001_message = [CHR 0xF0, CHR 0x9F, CHR 0x94, CHR 0xB4] @ '' **Mutable Default Argument**: Mutable default arguments are shared between calls.''"

definition PY001_suggestion :: string where
  "PY001_suggestion = ''Use `None` as default and create the mutable object inside the function: `def f(x=None): x = x or []`''"

definition PY002_message :: string where
  "PY002_message = [CHR 0xE2, CHR 0x9A, CHR 0xA0, CHR 0xEF, CHR 0xB8, CHR 0x8F] @ '' **Bare Except**: Catches all exceptions including KeyboardInterrupt and SystemExit.''"

definition PY002_suggestion :: string where
  "PY002_suggestion = ''Use `except Exception:` at minimum, or catch specific exceptions.''"

definition PY003_message :: string where
  "PY003_message = [CHR 0xE2, CHR 0x9A, CHR 0xA0, CHR 0xEF, CHR 0xB8, CHR 0x8F] @ '' **Assert in Production**: Assert statements are stripped with `-O` flag.''"

definition PY003_suggestion :: string where
  "PY003_suggestion = ''Use explicit `if not condition: raise ValueError()` for production validation.''"

definition GO001_message :: string where
  "GO001_message = [CHR 0xE2, CHR 0x9A, CHR 0xA0, CHR 0xEF, CHR 0xB8, CHR 0x8F] @ '' **Unchecked Error**: Go function may return an error that is not being checked.''"

definition GO001_suggestion :: string where
  "GO001_suggestion = ''Check errors: `result, err := fn(); if err != nil { return err }`''"

definition GO002_message :: string where
  "GO002_message = [CHR 0xE2, CHR 0x9A, CHR 0xA0, CHR 0xEF, CHR 0xB8, CHR 0x8F] @ '' **Goroutine Leak Risk**: Anonymous goroutine without clear lifecycle management.''"

definition GO002_suggestion :: string where
  "GO002_suggestion = ''Ensure goroutines have proper cancellation via context or done channels.''"

definition REACT001_message :: string where
  "REACT001_message = [CHR 0xE2, CHR 0x9A, CHR 0xA0, CHR 0xEF, CHR 0xB8, CHR 0x8F] @ '' **Empty Dependency Array**: Hook with empty deps array runs only once. Verify this is intentional.''"

definition REACT001_suggestion :: string where
  "REACT001_suggestion = ''Add all referenced variables to the dependency array, or add a comment explaining why it should only run once.''"

definition REACT002_message :: string where
  "REACT002_message = [CHR 0xF0, CHR 0x9F, CHR 0x94, CHR 0xB4] @ '' **State Update in Render**: Setting state during render causes infinite re-renders.''"

definition REACT002_suggestion :: string where
  "REACT002_suggestion = ''Move state updates to event handlers or useEffect.''"

definition TS001_message :: string where
  "TS001_message = [CHR 0xE2, CHR 0x84, CHR 0xB9, CHR 0xEF, CHR 0xB8, CHR 0x8F] @ '' **`any` Type**: Using `any` defeats the purpose of TypeScript.''"

definition TS001_suggestion :: string where
  "TS001_suggestion = ''Use a specific type, `unknown` for truly unknown types, or generics.''"

definition TS002_message :: string where
  "TS002_message = [CHR 0xE2, CHR 0x9A, CHR 0xA0, CHR 0xEF, CHR 0xB8, CHR 0x8F] @ '' **Non-null Assertion**: `!.` bypasses null checking and can cause runtime errors.''"

definition TS002_suggestion :: string where
  "TS002_suggestion = ''Use optional chaining (`?.`) or add a proper null check.''"

definition GEN001_message :: string where
  "GEN001_message = [CHR 0xE2, CHR 0x84, CHR 0xB9, CHR 0xEF, CHR 0xB8, CHR 0x8F] @ '' **Magic Number**: Large numeric literals should be named constants for readability.''"

definition GEN001_suggestion :: string where
  "GEN001_suggestion = ''Extract to a named constant: `const MAX_RETRIES = 1000;`''"

subsection \<open>The long-function check (GEN002)\<close>

text \<open>\<open>/(?:function|def|func|fn)\s+(\w+)/\<close>, split before its capture group.\<close>

definition func_head :: regex where
  "func_head = seqs [alts [Lit ''function'', Lit ''def'', Lit ''func'', Lit ''fn''], Plus Sp]"

definition func_name :: regex where
  "func_name = Plus Wd"

text \<open>
  \<open>line.match(...)\<close>: at the leftmost start where the pattern matches, the first way of
  matching the head that the name can follow; the result is capture group 1.
\<close>

fun first_capture :: "string \<Rightarrow> nat list \<Rightarrow> string option" where
  "first_capture s [] = None"
| "first_capture s (j # js) =
     (case ends no_flags s func_name j of
        [] \<Rightarrow> first_capture s js
      | e # _ \<Rightarrow> Some (take (e - j) (drop j s)))"

fun first_func :: "string \<Rightarrow> nat list \<Rightarrow> string option" where
  "first_func s [] = None"
| "first_func s (i # is) =
     (case first_capture s (ends no_flags s func_head i) of
        None \<Rightarrow> first_func s is
      | Some nm \<Rightarrow> Some nm)"

definition funcMatch :: "string \<Rightarrow> string option" where
  "funcMatch l = first_func l [0..<Suc (length l)]"

text \<open>\<open>(line.match(/{/g) || []).length\<close> and the same for the closing brace.\<close>

definition count_char :: "char \<Rightarrow> string \<Rightarrow> nat" where
  "count_char c l = length (filter (\<lambda>x. x = c) l)"

text \<open>The loop variables \<open>funcStart\<close> (-1 when no function is open), \<open>braceDepth\<close>, \<open>funcName\<close>.\<close>

record check_state =
  funcStart :: int
  braceDepth :: int
  funcName :: string

definition long_message :: "string \<Rightarrow> nat \<Rightarrow> string" where
  "long_message nm len =
     [CHR 0xE2, CHR 0x84, CHR 0xB9, CHR 0xEF, CHR 0xB8, CHR 0x8F] @ '' **Long Function**: `'' @ nm
       @ ''` is '' @ digits len @ '' lines long. Consider breaking it up.''"

definition long_suggestion :: string where
  "long_suggestion = ''Functions over 50 lines are harder to test and maintain. Extract sub-functions.''"

text \<open>One round of the loop at index \<open>i\<close>: the issues pushed and the variables afterwards.\<close>

definition check_step :: "check_state \<Rightarrow> nat \<Rightarrow> string \<Rightarrow> block_issue list \<times> check_state" where
  "check_step st i l =
     (let st1 = (case funcMatch l of
                   Some nm \<Rightarrow> if funcStart st = -1
                              then \<lparr>funcStart = int i, braceDepth = 0, funcName = nm\<rparr> else st
                 | None \<Rightarrow> st)
      in if funcStart st1 \<noteq> -1
         then let d = braceDepth st1 + int (count_char (CHR ''{'') l) - int (count_char (CHR ''}'') l);
                  st2 = st1\<lparr>braceDepth := d\<rparr>
              in if d \<le> 0 \<and> int i > funcStart st2
                 then let len = nat (int i - funcStart st2)
                      in (if len > 50
                          then [\<lparr>bline = nat (funcStart st2 + 1),
                                 bmessage = long_message (funcName st2) len,
                                 bsuggestion = long_suggestion\<rparr>]
                          else [],
                          st2\<lparr>funcStart := -1\<rparr>)
                 else ([], st2)
         else ([], st1))"

fun check_loop :: "check_state \<Rightarrow> nat \<Rightarrow> string list \<Rightarrow> block_issue list" where
  "check_loop st i [] = []"
| "check_loop st i (l # ls) =
     (case check_step st i l of (out, st') \<Rightarrow> out @ check_loop st' (Suc i) ls)"

definition GEN002_check :: "string list \<Rightarrow> block_issue list" where
  "GEN002_check lines = check_loop \<lparr>funcStart = -1, braceDepth = 0, funcName = []\<rparr> 0 lines"

subsection \<open>The rule table\<close>

text \<open>
  \<^verbatim>\<open>pattern: /(?:query|execute|exec|raw)\s*\(\s*(?:`[^`]*\$\{|f['"][^'"]*\{|['"].*?\+\s*(?:req|request|params|input|user|args)|['"].*?%s|['"].*?\?\s*%)/gi\<close>
\<close>

definition SEC001 :: rule where
  "SEC001 = \<lparr>rid = ''SEC001'', rname = ''SQL Injection Risk'', rseverity = Error,
     languages = [''js'', ''ts'', ''py'', ''java'', ''go'', ''rb'', ''php''],
     rmatcher = LineRule
       (seqs [alts [Lit ''query'', Lit ''execute'', Lit ''exec'', Lit ''raw''], Star Sp, Lit ''('', Star Sp,
              alts [seqs [Lit ''`'', Star (Cls True [CC bq]), Lit ''${''],
                    seqs [Lit ''f'', Cls False [CC sq, CC dq], Star (Cls True [CC sq, CC dq]), Lit ''{''],
                    seqs [Cls False [CC sq, CC dq], LazyStar Dot, Lit ''+'', Star Sp,
                          alts [Lit ''req'', Lit ''request'', Lit ''params'', Lit ''input'', Lit ''user'', Lit ''args'']],
                    seqs [Cls False [CC sq, CC dq], LazyStar Dot, Lit ''%s''],
                    seqs [Cls False [CC sq, CC dq], LazyStar Dot, Lit ''?'', Star Sp, Lit ''%'']]])
       flags_i SEC001_message SEC001_suggestion None\<rparr>"

text \<open>
  \<^verbatim>\<open>pattern: /\beval\s*\(/g\<close>
\<close>

definition SEC002 :: rule where
  "SEC002 = \<lparr>rid = ''SEC002'', rname = ''eval() Usage'', rseverity = Error,
     languages = [''js'', ''ts'', ''py''],
     rmatcher = LineRule (seqs [WordB, Lit ''eval'', Star Sp, Lit ''(''])
       no_flags SEC002_message SEC002_suggestion None\<rparr>"

text \<open>
  \<^verbatim>\<open>pattern: /(?:password|secret|api_key|apikey|api_secret|access_token|auth_token|private_key)\s*[:=]\s*['"][^'"]{8,}['"]/gi\<close>
\<close>

definition SEC003 :: rule where
  "SEC003 = \<lparr>rid = ''SEC003'', rname = ''Hardcoded Secrets'', rseverity = Error,
     languages = [''*''],
     rmatcher = LineRule
       (seqs [alts [Lit ''password'', Lit ''secret'', Lit ''api_key'', Lit ''apikey'', Lit ''api_secret'',
                    Lit ''access_token'', Lit ''auth_token'', Lit ''private_key''],
              Star Sp, Cls False [CC (CHR '':''), CC (CHR ''='')], Star Sp,
              Cls False [CC sq, CC dq], AtLeast 8 (Cls True [CC sq, CC dq]), Cls False [CC sq, CC dq]])
       flags_i SEC003_message SEC003_suggestion None\<rparr>"

text \<open>
  \<^verbatim>\<open>pattern: /(?:readFile|readFileSync|open|fopen|os\.path\.join|filepath\.Join)\s*\([^)]*(?:req\.|request\.|params\.|input|user_input|args)/gi\<close>
\<close>

definition SEC004 :: rule where
  "SEC004 = \<lparr>rid = ''SEC004'', rname = ''Path Traversal'', rseverity = Error,
     languages = [''js'', ''ts'', ''py'', ''go'', ''java'', ''rb'', ''php''],
     rmatcher = LineRule
       (seqs [alts [Lit ''readFile'', Lit ''readFileSync'', Lit ''open'', Lit ''fopen'',
                    Lit ''os.path.join'', Lit ''filepath.Join''],
              Star Sp, Lit ''('', Star (Cls True [CC (CHR '')'')]),
              alts [Lit ''req.'', Lit ''request.'', Lit ''params.'', Lit ''input'', Lit ''user_input'', Lit ''args'']])
       flags_i SEC004_message SEC004_suggestion None\<rparr>"

text \<open>
  \<^verbatim>\<open>pattern: /\.innerHTML\s*=\s*(?!['"`]<)/g\<close>
\<close>

definition SEC005 :: rule where
  "SEC005 = \<lparr>rid = ''SEC005'', rname = ''XSS via innerHTML'', rseverity = Error,
     languages = [''js'', ''ts''],
     rmatcher = LineRule
       (seqs [Lit ''.innerHTML'', Star Sp, Lit ''='', Star Sp,
              NotAhead (seqs [Cls False [CC sq, CC dq, CC bq], Lit ''<''])])
       no_flags SEC005_message SEC005_suggestion None\<rparr>"

text \<open>
  \<^verbatim>\<open>pattern: /(?:exec|spawn|system|popen|subprocess\.call|subprocess\.run|os\.system)\s*\([^)]*(?:\+|`|\$\{|\.format|%s|f['"])/gi\<close>
\<close>

definition SEC006 :: rule where
  "SEC006 = \<lparr>rid = ''SEC006'', rname = ''Command Injection'', rseverity = Error,
     languages = [''js'', ''ts'', ''py'', ''rb'', ''php''],
     rmatcher = LineRule
       (seqs [alts [Lit ''exec'', Lit ''spawn'', Lit ''system'', Lit ''popen'', Lit ''subprocess.call'',
                    Lit ''subprocess.run'', Lit ''os.system''],
              Star Sp, Lit ''('', Star (Cls True [CC (CHR '')'')]),
              alts [Lit ''+'', Lit ''`'', Lit ''${'', Lit ''.format'', Lit ''%s'',
                    seqs [Lit ''f'', Cls False [CC sq, CC dq]]]])
       flags_i SEC006_message SEC006_suggestion None\<rparr>"

text \<open>
  \<^verbatim>\<open>pattern: /Math\.random\s*\(\)/g\<close>

  \<^verbatim>\<open>contextFilter: (line) => /(?:token|secret|password|key|auth|session|nonce|salt|hash|crypto)/i.test(line)\<close>
\<close>

definition SEC007 :: rule where
  "SEC007 = \<lparr>rid = ''SEC007'', rname = ''Insecure Randomness'', rseverity = Warning,
     languages = [''js'', ''ts''],
     rmatcher = LineRule (seqs [Lit ''Math.random'', Star Sp, Lit ''()''])
       no_flags SEC007_message SEC007_suggestion
       (Some (\<lambda>l fp. re_test flags_i
          (alts [Lit ''token'', Lit ''secret'', Lit ''password'', Lit ''key'', Lit ''auth'', Lit ''session'',
                 Lit ''nonce'', Lit ''salt'', Lit ''hash'', Lit ''crypto'']) l))\<rparr>"

text \<open>
  \<^verbatim>\<open>pattern: /(?:verify\s*=\s*False|rejectUnauthorized\s*:\s*false|InsecureSkipVerify\s*:\s*true|VERIFY_NONE|ssl_verify.*false)/gi\<close>
\<close>

definition SEC008 :: rule where
  "SEC008 = \<lparr>rid = ''SEC008'', rname = ''Disabled SSL Verification'', rseverity = Error,
     languages = [''py'', ''js'', ''ts'', ''go'', ''java'', ''rb''],
     rmatcher = LineRule
       (alts [seqs [Lit ''verify'', Star Sp, Lit ''='', Star Sp, Lit ''False''],
              seqs [Lit ''rejectUnauthorized'', Star Sp, Lit '':'', Star Sp, Lit ''false''],
              seqs [Lit ''InsecureSkipVerify'', Star Sp, Lit '':'', Star Sp, Lit ''true''],
              Lit ''VERIFY_NONE'',
              seqs [Lit ''ssl_verify'', Star Dot, Lit ''false'']])
       flags_i SEC008_message SEC008_suggestion None\<rparr>"

text \<open>
  \<^verbatim>\<open>pattern: /[^=!<>]==[^=]/g\<close>

  \<^verbatim>\<open>contextFilter: (line) => !/['"`].*==.*['"`]/.test(line)\<close>
\<close>

definition BUG001 :: rule where
  "BUG001 = \<lparr>rid = ''BUG001'', rname = ''Loose Equality'', rseverity = Warning,
     languages = [''js'', ''ts''],
     rmatcher = LineRule
       (seqs [Cls True [CC (CHR ''=''), CC (CHR ''!''), CC (CHR ''<''), CC (CHR ''>'')], Lit ''=='',
              Cls True [CC (CHR ''='')]])
       no_flags BUG001_message BUG001_suggestion
       (Some (\<lambda>l fp. \<not> re_test no_flags
          (seqs [Cls False [CC sq, CC dq, CC bq], Star Dot, Lit ''=='', Star Dot,
                 Cls False [CC sq, CC dq, CC bq]]) l))\<rparr>"

definition float_operand :: regex where
  "float_operand = alts [seqs [Lit ''0.'', Plus Dg], Lit ''parseFloat'', Lit ''float('']"

text \<open>
  \<^verbatim>\<open>pattern: /(?:0\.\d+|parseFloat|float\()\s*===?\s*(?:0\.\d+|parseFloat|float\()/g\<close>
\<close>

definition BUG002 :: rule where
  "BUG002 = \<lparr>rid = ''BUG002'', rname = ''Floating Point Comparison'', rseverity = Warning,
     languages = [''js'', ''ts'', ''py'', ''java'', ''go'', ''c'', ''cpp''],
     rmatcher = LineRule
       (seqs [float_operand, Star Sp, Lit ''=='', Opt (Lit ''=''), Star Sp, float_operand])
       no_flags BUG002_message BUG002_suggestion None\<rparr>"

text \<open>
  \<^verbatim>\<open>pattern: /(?:^|\s)(?:const|let|var)\s+\w+\s*=\s*(?:\w+\.(?:find|save|create|update|delete|fetch|get|post|put|patch|remove|insert|query)\s*\()/gm\<close>

  \<^verbatim>\<open>contextFilter: (line) => !/await/.test(line)\<close>
\<close>

definition BUG003 :: rule where
  "BUG003 = \<lparr>rid = ''BUG003'', rname = ''Missing await'', rseverity = Warning,
     languages = [''js'', ''ts''],
     rmatcher = LineRule
       (seqs [alts [Bol, Sp], alts [Lit ''const'', Lit ''let'', Lit ''var''], Plus Sp, Plus Wd, Star Sp,
              Lit ''='', Star Sp,
              seqs [Plus Wd, Lit ''.'',
                    alts [Lit ''find'', Lit ''save'', Lit ''create'', Lit ''update'', Lit ''delete'', Lit ''fetch'',
                          Lit ''get'', Lit ''post'', Lit ''put'', Lit ''patch'', Lit ''remove'', Lit ''insert'',
                          Lit ''query''],
                    Star Sp, Lit ''('']])
       flags_m BUG003_message BUG003_suggestion
       (Some (\<lambda>l fp. \<not> re_test no_flags (Lit ''await'') l))\<rparr>"

text \<open>
  \<^verbatim>\<open>pattern: /catch\s*(?:\([^)]*\))?\s*\{\s*\}/g\<close>
\<close>

definition BUG004 :: rule where
  "BUG004 = \<lparr>rid = ''BUG004'', rname = ''Empty Catch Block'', rseverity = Warning,
     languages = [''js'', ''ts'', ''java'', ''py''],
     rmatcher = LineRule
       (seqs [Lit ''catch'', Star Sp, Opt (seqs [Lit ''('', Star (Cls True [CC (CHR '')'')]), Lit '')'']),
              Star Sp, Lit ''{'', Star Sp, Lit ''}''])
       no_flags BUG004_message BUG004_suggestion None\<rparr>"

text \<open>
  \<^verbatim>\<open>pattern: /console\.log\s*\(/g\<close>

  \<^verbatim>\<open>contextFilter: (line) => !/\/\/.*console|test|spec|debug/.test(line)\<close>
\<close>

definition BUG005 :: rule where
  "BUG005 = \<lparr>rid = ''BUG005'', rname = ''Console.log in Production'', rseverity = Info,
     languages = [''js'', ''ts''],
     rmatcher = LineRule (seqs [Lit ''console.log'', Star Sp, Lit ''(''])
       no_flags BUG005_message BUG005_suggestion
       (Some (\<lambda>l fp. \<not> re_test no_flags
          (alts [seqs [Lit ''//'', Star Dot, Lit ''console''], Lit ''test'', Lit ''spec'', Lit ''debug'']) l))\<rparr>"

text \<open>
  \<^verbatim>\<open>pattern: /\/\/\s*(?:TODO|FIXME|HACK|XXX|BUG|WORKAROUND)[\s:]/gi\<close>
\<close>

definition BUG006 :: rule where
  "BUG006 = \<lparr>rid = ''BUG006'', rname = ''TODO/FIXME/HACK Comments'', rseverity = Info,
     languages = [''*''],
     rmatcher = LineRule
       (seqs [Lit ''//'', Star Sp,
              alts [Lit ''TODO'', Lit ''FIXME'', Lit ''HACK'', Lit ''XXX'', Lit ''BUG'', Lit ''WORKAROUND''],
              Cls False [ClsS, CC (CHR '':'')]])
       flags_i BUG006_message BUG006_suggestion None\<rparr>"

text \<open>
  \<^verbatim>\<open>pattern: /(?:for|forEach|map|\.each)\s*(?:\(|{)[\s\S]{0,100}(?:await|\.query|\.find|\.get|\.fetch|\.execute|\.select)/gm\<close>
\<close>

definition PERF001 :: rule where
  "PERF001 = \<lparr>rid = ''PERF001'', rname = ''N+1 Query Pattern'', rseverity = Warning,
     languages = [''js'', ''ts'', ''py'', ''rb'', ''java''],
     rmatcher = LineRule
       (seqs [alts [Lit ''for'', Lit ''forEach'', Lit ''map'', Lit ''.each''], Star Sp,
              alts [Lit ''('', Lit ''{''], UpTo 100 AnyChar,
              alts [Lit ''await'', Lit ''.query'', Lit ''.find'', Lit ''.get'', Lit ''.fetch'', Lit ''.execute'',
                    Lit ''.select'']])
       flags_m PERF001_message PERF001_suggestion None\<rparr>"

text \<open>
  \<^verbatim>\<open>pattern: /(?:readFileSync|writeFileSync|mkdirSync|readdirSync|statSync|existsSync|appendFileSync|copyFileSync|renameSync|unlinkSync|rmdirSync)\s*\(/g\<close>

  \<^verbatim>\<open>contextFilter: (line) => !/(?:config|setup|init|boot|build|script|cli|bin)/.test(line)\<close>
\<close>

definition PERF002 :: rule where
  "PERF002 = \<lparr>rid = ''PERF002'', rname = ''Synchronous I/O'', rseverity = Warning,
     languages = [''js'', ''ts''],
     rmatcher = LineRule
       (seqs [alts [Lit ''readFileSync'', Lit ''writeFileSync'', Lit ''mkdirSync'', Lit ''readdirSync'',
                    Lit ''statSync'', Lit ''existsSync'', Lit ''appendFileSync'', Lit ''copyFileSync'',
                    Lit ''renameSync'', Lit ''unlinkSync'', Lit ''rmdirSync''],
              Star Sp, Lit ''(''])
       no_flags PERF002_message PERF002_suggestion
       (Some (\<lambda>l fp. \<not> re_test no_flags
          (alts [Lit ''config'', Lit ''setup'', Lit ''init'', Lit ''boot'', Lit ''build'', Lit ''script'',
                 Lit ''cli'', Lit ''bin'']) l))\<rparr>"

text \<open>
  \<^verbatim>\<open>pattern: /while\s*\(true\)[\s\S]{0,200}\.push\s*\(/gm\<close>
\<close>

definition PERF003 :: rule where
  "PERF003 = \<lparr>rid = ''PERF003'', rname = ''Unbounded Array Growth'', rseverity = Warning,
     languages = [''js'', ''ts'', ''py''],
     rmatcher = LineRule
       (seqs [Lit ''while'', Star Sp, Lit ''(true)'', UpTo 200 AnyChar, Lit ''.push'', Star Sp, Lit ''(''])
       flags_m PERF003_message PERF003_suggestion None\<rparr>"

text \<open>
  \<^verbatim>\<open>pattern: /(?:for|while|forEach|map)\s*(?:\(|{)[\s\S]{0,50}new RegExp\(/gm\<close>
\<close>

definition PERF004 :: rule where
  "PERF004 = \<lparr>rid = ''PERF004'', rname = ''Regex in Loop'', rseverity = Info,
     languages = [''js'', ''ts'', ''py'', ''java''],
     rmatcher = LineRule
       (seqs [alts [Lit ''for'', Lit ''while'', Lit ''forEach'', Lit ''map''], Star Sp,
              alts [Lit ''('', Lit ''{''], UpTo 50 AnyChar, Lit ''new RegExp(''])
       flags_m PERF004_message PERF004_suggestion None\<rparr>"

text \<open>
  \<^verbatim>\<open>pattern: /def\s+\w+\s*\([^)]*(?:=\s*\[\]|=\s*\{\}|=\s*set\(\))/g\<close>
\<close>

definition PY001 :: rule where
  "PY001 = \<lparr>rid = ''PY001'', rname = ''Mutable Default Argument'', rseverity = Error,
     languages = [''py''],
     rmatcher = LineRule
       (seqs [Lit ''def'', Plus Sp, Plus Wd, Star Sp, Lit ''('', Star (Cls True [CC (CHR '')'')]),
              alts [seqs [Lit ''='', Star Sp, Lit ''[]''],
                    seqs [Lit ''='', Star Sp, Lit ''{}''],
                    seqs [Lit ''='', Star Sp, Lit ''set()'']]])
       no_flags PY001_message PY001_suggestion None\<rparr>"

text \<open>
  \<^verbatim>\<open>pattern: /except\s*:/g\<close>
\<close>

definition PY002 :: rule where
  "PY002 = \<lparr>rid = ''PY002'', rname = ''Bare Except'', rseverity = Warning,
     languages = [''py''],
     rmatcher = LineRule (seqs [Lit ''except'', Star Sp, Lit '':''])
       no_flags PY002_message PY002_suggestion None\<rparr>"

text \<open>
  \<^verbatim>\<open>pattern: /^assert\s+/gm\<close>

  \<^verbatim>\<open>contextFilter: (line, filepath) => !/test/.test(filepath)\<close>
\<close>

definition PY003 :: rule where
  "PY003 = \<lparr>rid = ''PY003'', rname = ''Assert in Production'', rseverity = Warning,
     languages = [''py''],
     rmatcher = LineRule (seqs [Bol, Lit ''assert'', Plus Sp])
       flags_m PY003_message PY003_suggestion
       (Some (\<lambda>l fp. \<not> re_test no_flags (Lit ''test'') fp))\<rparr>"

text \<open>
  \<^verbatim>\<open>pattern: /[^,]\s*:?=\s*\w+\.\w+\([^)]*\)\s*$/gm\<close>
\<close>

definition GO001 :: rule where
  "GO001 = \<lparr>rid = ''GO001'', rname = ''Unchecked Error'', rseverity = Warning,
     languages = [''go''],
     rmatcher = LineRule
       (seqs [Cls True [CC (CHR '','')], Star Sp, Opt (Lit '':''), Lit ''='', Star Sp, Plus Wd, Lit ''.'',
              Plus Wd, Lit ''('', Star (Cls True [CC (CHR '')'')]), Lit '')'', Star Sp, Eol])
       flags_m GO001_message GO001_suggestion None\<rparr>"

text \<open>
  \<^verbatim>\<open>pattern: /go\s+func\s*\(/g\<close>
\<close>

definition GO002 :: rule where
  "GO002 = \<lparr>rid = ''GO002'', rname = ''Goroutine Leak'', rseverity = Warning,
     languages = [''go''],
     rmatcher = LineRule (seqs [Lit ''go'', Plus Sp, Lit ''func'', Star Sp, Lit ''(''])
       no_flags GO002_message GO002_suggestion None\<rparr>"

text \<open>
  \<^verbatim>\<open>pattern: /use(?:Effect|Callback|Memo)\s*\(\s*(?:\(\)|[^,]+),\s*\[\s*\]\s*\)/g\<close>
\<close>

definition REACT001 :: rule where
  "REACT001 = \<lparr>rid = ''REACT001'', rname = ''Missing Dependency Array'', rseverity = Warning,
     languages = [''js'', ''ts'', ''jsx'', ''tsx''],
     rmatcher = LineRule
       (seqs [Lit ''use'', alts [Lit ''Effect'', Lit ''Callback'', Lit ''Memo''], Star Sp, Lit ''('', Star Sp,
              alts [Lit ''()'', Plus (Cls True [CC (CHR '','')])], Lit '','', Star Sp, Lit ''['', Star Sp,
              Lit '']'', Star Sp, Lit '')''])
       no_flags REACT001_message REACT001_suggestion None\<rparr>"

text \<open>
  \<^verbatim>\<open>pattern: /(?:function|const)\s+\w+\s*(?:=|)\s*(?:\([^)]*\))?\s*(?:=>)?\s*\{[^}]*set\w+\s*\([^}]*return\s*(?:\(|<)/gms\<close>
\<close>

definition REACT002 :: rule where
  "REACT002 = \<lparr>rid = ''REACT002'', rname = ''State Update in Render'', rseverity = Error,
     languages = [''js'', ''ts'', ''jsx'', ''tsx''],
     rmatcher = LineRule
       (seqs [alts [Lit ''function'', Lit ''const''], Plus Sp, Plus Wd, Star Sp, alts [Lit ''='', Lit []],
              Star Sp, Opt (seqs [Lit ''('', Star (Cls True [CC (CHR '')'')]), Lit '')'']), Star Sp,
              Opt (Lit ''=>''), Star Sp, Lit ''{'', Star (Cls True [CC (CHR ''}'')]), Lit ''set'', Plus Wd,
              Star Sp, Lit ''('', Star (Cls True [CC (CHR ''}'')]), Lit ''return'', Star Sp,
              alts [Lit ''('', Lit ''<'']])
       flags_ms REACT002_message REACT002_suggestion None\<rparr>"

text \<open>
  \<^verbatim>\<open>pattern: /:\s*any\b/g\<close>
\<close>

definition TS001 :: rule where
  "TS001 = \<lparr>rid = ''TS001'', rname = ''any Type'', rseverity = Info,
     languages = [''ts'', ''tsx''],
     rmatcher = LineRule (seqs [Lit '':'', Star Sp, Lit ''any'', WordB])
       no_flags TS001_message TS001_suggestion None\<rparr>"

text \<open>
  \<^verbatim>\<open>pattern: /\w+!\./g\<close>
\<close>

definition TS002 :: rule where
  "TS002 = \<lparr>rid = ''TS002'', rname = ''Non-null Assertion'', rseverity = Warning,
     languages = [''ts'', ''tsx''],
     rmatcher = LineRule (seqs [Plus Wd, Lit ''!.''])
       no_flags TS002_message TS002_suggestion None\<rparr>"

text \<open>
  \<^verbatim>\<open>pattern: /(?:if|while|for|return|===?|!==?|[<>]=?)\s*\d{3,}/g\<close>

  \<^verbatim>\<open>contextFilter: (line) => !/(?:port|status|code|http|error|errno|0x|pixel|width|height|size)/i.test(line)\<close>
\<close>

definition GEN001 :: rule where
  "GEN001 = \<lparr>rid = ''GEN001'', rname = ''Magic Number'', rseverity = Info,
     languages = [''*''],
     rmatcher = LineRule
       (seqs [alts [Lit ''if'', Lit ''while'', Lit ''for'', Lit ''return'',
                    seqs [Lit ''=='', Opt (Lit ''='')], seqs [Lit ''!='', Opt (Lit ''='')],
                    seqs [Cls False [CC (CHR ''<''), CC (CHR ''>'')], Opt (Lit ''='')]],
              Star Sp, AtLeast 3 Dg])
       no_flags GEN001_message GEN001_suggestion
       (Some (\<lambda>l fp. \<not> re_test flags_i
          (alts [Lit ''port'', Lit ''status'', Lit ''code'', Lit ''http'', Lit ''error'', Lit ''errno'', Lit ''0x'',
                 Lit ''pixel'', Lit ''width'', Lit ''height'', Lit ''size'']) l))\<rparr>"

definition GEN002 :: rule where
  "GEN002 = \<lparr>rid = ''GEN002'', rname = ''Long Function'', rseverity = Info,
     languages = [''*''],
     rmatcher = BlockRule GEN002_check\<rparr>"

definition rules :: "rule list" where
  "rules = [SEC001, SEC002, SEC003, SEC004, SEC005, SEC006, SEC007, SEC008,
            BUG001, BUG002, BUG003, BUG004, BUG005, BUG006,
            PERF001, PERF002, PERF003, PERF004,
            PY001, PY002, PY003, GO001, GO002, REACT001, REACT002, TS001, TS002,
            GEN001, GEN002]"

section \<open>The analyzer\<close>

subsection \<open>Language detection\<close>

definition ext_map :: "(string \<times> string) list" where
  "ext_map =
     [(''js'', ''js''), (''mjs'', ''js''), (''cjs'', ''js''), (''jsx'', ''jsx''),
      (''ts'', ''ts''), (''mts'', ''ts''), (''cts'', ''ts''), (''tsx'', ''tsx''),
      (''py'', ''py''), (''pyw'', ''py''),
      (''go'', ''go''),
      (''rs'', ''rust''),
      (''java'', ''java''),
      (''rb'', ''rb''),
      (''php'', ''php''),
      (''c'', ''c''), (''h'', ''c''),
      (''cpp'', ''cpp''), (''cc'', ''cpp''), (''cxx'', ''cpp''), (''hpp'', ''cpp'')]"

text \<open>
  The value of \<open>map[ext] || ext\<close>: a tag, or, when the extension is the name of a member
  that the object literal inherits, that member.
\<close>

datatype langval = Tag string | InheritedMember

definition detectLanguage :: "string \<Rightarrow> langval" where
  "detectLanguage path =
     (let ext = toLowerCase (last (split_on (CHR ''.'') path))
      in case map_of ext_map ext of
           Some t \<Rightarrow> Tag t
         | None \<Rightarrow> if ext \<in> set object_prototype_keys then InheritedMember else Tag ext)"

text \<open>\<open>rule.languages.includes(lang)\<close>.\<close>

definition includes_lang :: "string list \<Rightarrow> langval \<Rightarrow> bool" where
  "includes_lang ls lang = (case lang of Tag t \<Rightarrow> t \<in> set ls | InheritedMember \<Rightarrow> False)"

subsection \<open>Comment lines\<close>

text \<open>\<open>/^\s*(?:\/\/|#|\/\*|\*|--|;)/\<close>\<close>

definition comment_re :: regex where
  "comment_re = seqs [Bol, Star Sp, alts [Lit ''//'', Lit ''#'', Lit ''/*'', Lit ''*'', Lit ''--'', Lit '';'']]"

definition is_comment :: "string \<Rightarrow> bool" where
  "is_comment l = re_test no_flags comment_re l"

subsection \<open>\<open>analyzeFile\<close>\<close>

text \<open>
  The pattern objects of the rule table are shared by all calls, and a pattern with the
  \<open>g\<close> flag keeps the position \<open>lastIndex\<close> from which its next \<open>test\<close> starts. The store
  gives, for each rule id, the \<open>lastIndex\<close> of that rule's pattern.
\<close>

type_synonym store = "string \<Rightarrow> nat"

definition mk_finding :: "rule \<Rightarrow> nat \<Rightarrow> string \<Rightarrow> string \<Rightarrow> finding" where
  "mk_finding r ln msg sug =
     \<lparr>ruleId = rid r, ruleName = rname r, severity = rseverity r, line = ln,
      message = msg, suggestion = sug\<rparr>"

text \<open>
  The body of the inner loop for line \<open>l\<close> at index \<open>i\<close>, with the pattern's \<open>lastIndex\<close>
  before and after: a comment line is skipped before the pattern is touched; otherwise
  \<open>lastIndex\<close> is set to 0 and \<open>test\<close> leaves it at the end of the match, or at 0 when
  there is none.
\<close>

definition line_step ::
  "rule \<Rightarrow> regex \<Rightarrow> reflags \<Rightarrow> string \<Rightarrow> string \<Rightarrow> (string \<Rightarrow> string \<Rightarrow> bool) option
     \<Rightarrow> string \<Rightarrow> nat \<Rightarrow> string \<Rightarrow> nat \<Rightarrow> finding list \<times> nat" where
  "line_step r re fl msg sug cf path i l li =
     (if is_comment l then ([], li)
      else (case re_exec fl re l of
              None \<Rightarrow> ([], 0)
            | Some (b, e) \<Rightarrow>
                (case cf of
                   None \<Rightarrow> ([mk_finding r (i + 1) msg sug], e)
                 | Some flt \<Rightarrow> if \<not> flt l path then ([], e)
                              else ([mk_finding r (i + 1) msg sug], e))))"

fun scan_lines ::
  "rule \<Rightarrow> regex \<Rightarrow> reflags \<Rightarrow> string \<Rightarrow> string \<Rightarrow> (string \<Rightarrow> string \<Rightarrow> bool) option
     \<Rightarrow> string \<Rightarrow> nat \<Rightarrow> string list \<Rightarrow> nat \<Rightarrow> finding list \<times> nat" where
  "scan_lines r re fl msg sug cf path i [] li = ([], li)"
| "scan_lines r re fl msg sug cf path i (l # ls) li =
     (case line_step r re fl msg sug cf path i l li of
        (out, li') \<Rightarrow>
          (case scan_lines r re fl msg sug cf path (Suc i) ls li' of
             (outs, li'') \<Rightarrow> (out @ outs, li'')))"

definition block_finding :: "rule \<Rightarrow> block_issue \<Rightarrow> finding" where
  "block_finding r issue = mk_finding r (bline issue) (bmessage issue) (bsuggestion issue)"

text \<open>The two \<open>continue\<close> tests at the head of the loop over the rules.\<close>

definition skipped :: "langval \<Rightarrow> jsval \<Rightarrow> rule \<Rightarrow> bool" where
  "skipped lang minSev r =
     (num_lt (SEVERITY (rseverity r)) minSev
      \<or> (\<not> ''*'' \<in> set (languages r) \<and> \<not> includes_lang (languages r) lang))"

text \<open>What one rule that is not skipped pushes, and the store afterwards.\<close>

definition apply_rule :: "string \<Rightarrow> string list \<Rightarrow> rule \<Rightarrow> store \<Rightarrow> finding list \<times> store" where
  "apply_rule path lines r \<sigma> =
     (case rmatcher r of
        BlockRule chk \<Rightarrow> (map (block_finding r) (chk lines), \<sigma>)
      | LineRule re fl msg sug cf \<Rightarrow>
          (case scan_lines r re fl msg sug cf path 0 lines (\<sigma> (rid r)) of
             (out, li) \<Rightarrow> (out, \<sigma>(rid r := li))))"

fun analyze_rules ::
  "langval \<Rightarrow> jsval \<Rightarrow> string \<Rightarrow> string list \<Rightarrow> rule list \<Rightarrow> store \<Rightarrow> finding list \<times> store" where
  "analyze_rules lang minSev path lines [] \<sigma> = ([], \<sigma>)"
| "analyze_rules lang minSev path lines (r # rs) \<sigma> =
     (if skipped lang minSev r then analyze_rules lang minSev path lines rs \<sigma>
      else (case apply_rule path lines r \<sigma> of
              (out, \<sigma>') \<Rightarrow>
                (case analyze_rules lang minSev path lines rs \<sigma>' of
                   (outs, \<sigma>'') \<Rightarrow> (out @ outs, \<sigma>''))))"

text \<open>
  \<open>analyzeFile(filepath, content, minSeverity)\<close>, from a store and to a store. The third
  argument is the level after the default \<open>'warning'\<close> has been filled in for an omitted
  one.
\<close>

definition analyzeFile :: "store \<Rightarrow> string \<Rightarrow> string \<Rightarrow> string \<Rightarrow> finding list \<times> store" where
  "analyzeFile \<sigma> path source minSeverity =
     analyze_rules (detectLanguage path) (or_zero (SEVERITY_get minSeverity)) path
       (split_on nl source) rules \<sigma>"

subsection \<open>\<open>analyzeDiff\<close>\<close>

text \<open>A file unit; a field that the object does not have is \<open>None\<close>.\<close>

record file_unit =
  filepath :: "string option"
  content :: "string option"
  changedLines :: "nat list option"

record file_result =
  rfilepath :: string
  issues :: "finding list"

text \<open>\<open>!file.content\<close>: a missing field and the empty string are both falsy.\<close>

definition falsy :: "string option \<Rightarrow> bool" where
  "falsy v = (case v of None \<Rightarrow> True | Some s \<Rightarrow> s = [])"

text \<open>
  The record pushed for a unit: the findings are filtered when
  \<open>file.changedLines && file.changedLines.length > 0\<close>.
\<close>

definition unit_result :: "file_unit \<Rightarrow> string \<Rightarrow> finding list \<Rightarrow> file_result" where
  "unit_result u path found =
     (case changedLines u of
        None \<Rightarrow> \<lparr>rfilepath = path, issues = found\<rparr>
      | Some cl \<Rightarrow>
          if 0 < length cl
          then \<lparr>rfilepath = path, issues = filter (\<lambda>i. line i \<in> set cl) found\<rparr>
          else \<lparr>rfilepath = path, issues = found\<rparr>)"

text \<open>
  \<open>analyzeDiff(files, minSeverity)\<close>: a unit with a falsy content or path is skipped;
  past that test both are non-empty strings.
\<close>

fun analyzeDiff :: "store \<Rightarrow> file_unit list \<Rightarrow> string \<Rightarrow> file_result list \<times> store" where
  "analyzeDiff \<sigma> [] minSeverity = ([], \<sigma>)"
| "analyzeDiff \<sigma> (u # us) minSeverity =
     (if falsy (content u) \<or> falsy (filepath u) then analyzeDiff \<sigma> us minSeverity
      else (case analyzeFile \<sigma> (the (filepath u)) (the (content u)) minSeverity of
              (found, \<sigma>') \<Rightarrow>
                (case analyzeDiff \<sigma>' us minSeverity of
                   (rs, \<sigma>'') \<Rightarrow> (unit_result u (the (filepath u)) found # rs, \<sigma>''))))"

subsection \<open>\<open>generateSummary\<close>\<close>

record tally =
  totalIssues :: nat
  errors :: nat
  warnings :: nat
  infos :: nat

definition count_issue :: "tally \<Rightarrow> finding \<Rightarrow> tally" where
  "count_issue t issue =
     (let t1 = t\<lparr>totalIssues := totalIssues t + 1\<rparr>
      in if severity issue = Error then t1\<lparr>errors := errors t1 + 1\<rparr>
         else if severity issue = Warning then t1\<lparr>warnings := warnings t1 + 1\<rparr>
         else t1\<lparr>infos := infos t1 + 1\<rparr>)"

definition count_all :: "file_result list \<Rightarrow> tally" where
  "count_all allResults =
     foldl (\<lambda>t result. foldl count_issue t (issues result))
       \<lparr>totalIssues = 0, errors = 0, warnings = 0, infos = 0\<rparr> allResults"

definition summary_none :: string where
  "summary_none = [CHR 0xE2, CHR 0x9C, CHR 0x85] @ '' **Li Code Review**: No issues found. Code looks good! '' @ [CHR 0xF0, CHR 0x9F, CHR 0x8E, CHR 0x89, CHR 0x0A, CHR 0x0A] @ ''<sub>[Li Code Review](https://lbartoszcze.github.io/li-agent/) '' @ [CHR 0xE2, CHR 0x80, CHR 0x94] @ '' Free AI-powered code review</sub>''"

definition summary_head :: string where
  "summary_head = ''## '' @ [CHR 0xF0, CHR 0x9F, CHR 0x94, CHR 0x8D] @ '' Li Code Review Summary'' @ [CHR 0x0A, CHR 0x0A] @ ''Found **''"

definition summary_issue :: string where
  "summary_issue = ''** issue''"

definition summary_colon :: string where
  "summary_colon = '':'' @ [CHR 0x0A]"

definition summary_error_pre :: string where
  "summary_error_pre = ''- '' @ [CHR 0xF0, CHR 0x9F, CHR 0x94, CHR 0xB4] @ '' **''"

definition summary_error_post :: string where
  "summary_error_post = ''** error''"

definition summary_warning_pre :: string where
  "summary_warning_pre = ''- '' @ [CHR 0xE2, CHR 0x9A, CHR 0xA0, CHR 0xEF, CHR 0xB8, CHR 0x8F] @ '' **''"

definition summary_warning_post :: string where
  "summary_warning_post = ''** warning''"

definition summary_info_pre :: string where
  "summary_info_pre = ''- '' @ [CHR 0xE2, CHR 0x84, CHR 0xB9, CHR 0xEF, CHR 0xB8, CHR 0x8F] @ '' **''"

definition summary_info_post :: string where
  "summary_info_post = ''** info''"

definition summary_foot :: string where
  "summary_foot = [CHR 0x0A] @ ''<sub>[Li Code Review](https://lbartoszcze.github.io/li-agent/) '' @ [CHR 0xE2, CHR 0x80, CHR 0x94] @ '' Free AI-powered code review | Want deeper analysis? [Get a full audit](https://buy.stripe.com/cNi7sLex9bwm2qy8Iwd3i13)</sub>''"

text \<open>\<open>n === 1 ? '' : 's'\<close>\<close>

definition plural :: "nat \<Rightarrow> string" where
  "plural n = (if n = 1 then [] else ''s'')"

definition generateSummary :: "file_result list \<Rightarrow> string" where
  "generateSummary allResults =
     (let t = count_all allResults
      in if totalIssues t = 0 then summary_none
         else summary_head @ digits (totalIssues t) @ summary_issue @ plural (totalIssues t) @ summary_colon
              @ (if 0 < errors t
                 then summary_error_pre @ digits (errors t) @ summary_error_post @ plural (errors t) @ [nl]
                 else [])
              @ (if 0 < warnings t
                 then summary_warning_pre @ digits (warnings t) @ summary_warning_post @ plural (warnings t) @ [nl]
                 else [])
              @ (if 0 < infos t
                 then summary_info_pre @ digits (infos t) @ summary_info_post @ plural (infos t) @ [nl]
                 else [])
              @ summary_foot)"

section \<open>Notions used in the statements\<close>

text \<open>The store in which every pattern has \<open>lastIndex\<close> 0, as when the module has just been loaded.\<close>

definition fresh :: store where
  "fresh = (\<lambda>k. 0)"

text \<open>What a rule contributes to the findings of a file: nothing when it is skipped.\<close>

definition rule_part :: "langval \<Rightarrow> jsval \<Rightarrow> string \<Rightarrow> string list \<Rightarrow> rule \<Rightarrow> finding list" where
  "rule_part lang minSev path lines r =
     (if skipped lang minSev r then [] else fst (apply_rule path lines r (\<lambda>_. 0)))"

definition is_block :: "rule \<Rightarrow> bool" where
  "is_block r = (case rmatcher r of LineRule re fl msg sug cf \<Rightarrow> False | BlockRule chk \<Rightarrow> True)"

text \<open>The pattern of a line rule finds nothing in the empty line.\<close>

definition empty_ok :: "rule \<Rightarrow> bool" where
  "empty_ok r = (case rmatcher r of LineRule re fl msg sug cf \<Rightarrow> re_exec fl re [] = None | BlockRule chk \<Rightarrow> True)"

text \<open>The pattern of a line rule matches somewhere in a string.\<close>

definition pattern_hits :: "rule \<Rightarrow> string \<Rightarrow> bool" where
  "pattern_hits r s = (case rmatcher r of LineRule re fl msg sug cf \<Rightarrow> re_test fl re s | BlockRule chk \<Rightarrow> False)"

text \<open>
  A comment line in the spec's words: after optional leading whitespace the line begins
  with one of the comment leaders.
\<close>

definition comment_leaders :: "string list" where
  "comment_leaders = [''//'', ''#'', ''/*'', ''*'', ''--'', '';'']"

definition comment_led :: "string \<Rightarrow> bool" where
  "comment_led l = list_ex (\<lambda>ld. prefix ld (dropWhile js_space l)) comment_leaders"

text \<open>
  Invariants of the long-function loop before the round at index \<open>i\<close>: the open function,
  if any, started on an earlier line; and it either started on the line just before or
  its braces are still open. \<open>low\<close> bounds the line numbers still to be reported.
\<close>

definition open_ok :: "check_state \<Rightarrow> nat \<Rightarrow> bool" where
  "open_ok st i = (-1 \<le> funcStart st \<and> funcStart st < int i)"

definition settled :: "check_state \<Rightarrow> nat \<Rightarrow> bool" where
  "settled st i = (funcStart st = -1 \<or> funcStart st = int i - 1 \<or> 0 < braceDepth st)"

definition low :: "check_state \<Rightarrow> nat \<Rightarrow> nat" where
  "low st i = (if funcStart st = -1 then i + 1 else nat (funcStart st) + 1)"

text \<open>The units that \<open>analyzeDiff\<close> does not skip.\<close>

definition kept :: "file_unit \<Rightarrow> bool" where
  "kept u = (\<not> falsy (content u) \<and> \<not> falsy (filepath u))"

text \<open>The findings of all results, the number of them with a given severity, and a bucket's line.\<close>

definition all_issues :: "file_result list \<Rightarrow> finding list" where
  "all_issues allResults = concat (map issues allResults)"

definition count_sev :: "severity \<Rightarrow> file_result list \<Rightarrow> nat" where
  "count_sev s allResults = length (filter (\<lambda>f. severity f = s) (all_issues allResults))"

definition bucket_line :: "string \<Rightarrow> string \<Rightarrow> nat \<Rightarrow> string" where
  "bucket_line pre post n = (if 0 < n then pre @ digits n @ post @ plural n @ [nl] else [])"

section \<open>Positions of the matcher\<close>

lemma rep_set:
  "set (rep f g mn mx n i) =
     (if mx = Some 0 then {i}
      else if 0 < mn then (\<Union>k\<in>set (f i). set (rep f g (mn - 1) (dec_max mx) n k))
      else insert i (\<Union>k\<in>set (filter (\<lambda>j. i < j \<and> j \<le> n) (f i)). set (rep f g 0 (dec_max mx) n k)))"
  by (subst rep.simps) (simp add: Let_def)

lemma rep_bounds:
  "(\<And>i j. i \<le> n \<Longrightarrow> j \<in> set (f i) \<Longrightarrow> i \<le> j \<and> j \<le> n) \<Longrightarrow> i \<le> n
     \<Longrightarrow> j \<in> set (rep f g mn mx n i) \<Longrightarrow> i \<le> j \<and> j \<le> n"
proof (induction f g mn mx n i arbitrary: j rule: rep.induct)
  case (1 f g mn mx n i)
  note step = "1.prems"(1)
  show ?case
  proof (cases "mx = Some 0")
    case True
    then show ?thesis using "1.prems"(2,3) rep_set [of f g mn mx n i] by simp
  next
    case False
    show ?thesis
    proof (cases "0 < mn")
      case True
      from "1.prems"(3) False True rep_set [of f g mn mx n i]
      obtain k where k: "k \<in> set (f i)" "j \<in> set (rep f g (mn - 1) (dec_max mx) n k)"
        by auto
      have kb: "i \<le> k \<and> k \<le> n" using step [OF "1.prems"(2) k(1)] .
      then have kn: "k \<le> n" by simp
      have "k \<le> j \<and> j \<le> n"
        using "1.IH"(1) [OF False True k(1) step kn k(2)] by simp
      then show ?thesis using kb by simp
    next
      case nomin: False
      from "1.prems"(3) False nomin have
        "j = i \<or> (\<exists>k. k \<in> set (filter (\<lambda>j. i < j \<and> j \<le> n) (f i)) \<and> j \<in> set (rep f g 0 (dec_max mx) n k))"
        using rep_set [of f g mn mx n i] by auto
      then show ?thesis
      proof
        assume "j = i"
        then show ?thesis using "1.prems"(2) by simp
      next
        assume "\<exists>k. k \<in> set (filter (\<lambda>j. i < j \<and> j \<le> n) (f i)) \<and> j \<in> set (rep f g 0 (dec_max mx) n k)"
        then obtain k where k: "k \<in> set (filter (\<lambda>j. i < j \<and> j \<le> n) (f i))"
          "j \<in> set (rep f g 0 (dec_max mx) n k)" by blast
        have kb: "i < k \<and> k \<le> n" using k(1) by simp
        then have kn: "k \<le> n" by simp
        have "k \<le> j \<and> j \<le> n"
          using "1.IH"(2) [OF False nomin k(1) step kn k(2)] by simp
        then show ?thesis using kb by simp
      qed
    qed
  qed
qed

text \<open>Every end position lies between the start and the end of the subject.\<close>

lemma ends_bounds:
  "i \<le> length s \<Longrightarrow> j \<in> set (ends fl s r i) \<Longrightarrow> i \<le> j \<and> j \<le> length s"
proof (induction r arbitrary: i j)
  case (Lit cs)
  from Lit.prems show ?case by (simp add: lit_at_def split: if_splits)
next
  case Dot
  from Dot.prems show ?case by (simp split: if_splits)
next
  case (Cls neg items)
  from Cls.prems show ?case by (simp split: if_splits)
next
  case (Seq a b)
  from Seq.prems(2) obtain k where k: "k \<in> set (ends fl s a i)" "j \<in> set (ends fl s b k)" by auto
  have kb: "i \<le> k \<and> k \<le> length s" using Seq.IH(1) [OF Seq.prems(1) k(1)] .
  then have "k \<le> j \<and> j \<le> length s" using Seq.IH(2) [OF _ k(2)] by simp
  then show ?case using kb by simp
next
  case (Alt a b)
  from Alt.prems(2) have "j \<in> set (ends fl s a i) \<or> j \<in> set (ends fl s b i)" by simp
  then show ?case using Alt.IH(1) [OF Alt.prems(1)] Alt.IH(2) [OF Alt.prems(1)] by blast
next
  case (Rep mn mx g r)
  have "j \<in> set (rep (ends fl s r) g mn mx (length s) i)" using Rep.prems(2) by simp
  from rep_bounds [of "length s" "ends fl s r" i j g mn mx, OF Rep.IH Rep.prems(1) this]
  show ?case by blast
next
  case Bol
  from Bol.prems show ?case by (simp split: if_splits)
next
  case Eol
  from Eol.prems show ?case by (simp split: if_splits)
next
  case WordB
  from WordB.prems show ?case by (simp split: if_splits)
next
  case (NotAhead r)
  from NotAhead.prems show ?case by (simp split: if_splits)
qed

text \<open>So the bound in \<open>rep\<close> that makes its recursion end never drops a position.\<close>

lemma rep_filter_id:
  assumes "i \<le> length s"
  shows "filter (\<lambda>j. i < j \<and> j \<le> length s) (ends fl s r i) = filter (\<lambda>j. i < j) (ends fl s r i)"
proof (rule filter_cong)
  show "ends fl s r i = ends fl s r i" by (rule refl)
next
  fix j
  assume "j \<in> set (ends fl s r i)"
  then have "j \<le> length s" using ends_bounds [OF assms] by blast
  then show "(i < j \<and> j \<le> length s) = (i < j)" by simp
qed

section \<open>The loops of the analyzer\<close>

lemma line_step_fst_indep:
  "fst (line_step r re fl msg sug cf path i l li) = fst (line_step r re fl msg sug cf path i l li')"
  by (simp add: line_step_def split: option.splits prod.splits)

lemma scan_lines_Cons_fst:
  "fst (scan_lines r re fl msg sug cf path i (l # ls) li) =
     fst (line_step r re fl msg sug cf path i l li)
     @ fst (scan_lines r re fl msg sug cf path (Suc i) ls (snd (line_step r re fl msg sug cf path i l li)))"
  by (simp add: split_beta)

lemma analyze_rules_Cons_fst:
  "fst (analyze_rules lang minSev path lines (r # rs) \<sigma>) =
     (if skipped lang minSev r then fst (analyze_rules lang minSev path lines rs \<sigma>)
      else fst (apply_rule path lines r \<sigma>)
           @ fst (analyze_rules lang minSev path lines rs (snd (apply_rule path lines r \<sigma>))))"
  by (simp add: split_beta)

lemma scan_lines_fst_indep:
  "fst (scan_lines r re fl msg sug cf path i ls li) = fst (scan_lines r re fl msg sug cf path i ls li')"
proof (induction ls arbitrary: i li li')
  case Nil
  show ?case by simp
next
  case (Cons l ls)
  have a: "fst (line_step r re fl msg sug cf path i l li) = fst (line_step r re fl msg sug cf path i l li')"
    by (rule line_step_fst_indep)
  show ?case
    using a Cons.IH [of "Suc i" "snd (line_step r re fl msg sug cf path i l li)"
                        "snd (line_step r re fl msg sug cf path i l li')"]
    by (simp only: scan_lines_Cons_fst)
qed

lemma apply_rule_fst_indep:
  "fst (apply_rule path lines r \<sigma>) = fst (apply_rule path lines r \<sigma>')"
proof (cases "rmatcher r")
  case (LineRule re fl msg sug cf)
  then show ?thesis
    using scan_lines_fst_indep [of r re fl msg sug cf path 0 lines "\<sigma> (rid r)" "\<sigma>' (rid r)"]
    by (simp add: apply_rule_def split_beta)
next
  case (BlockRule chk)
  then show ?thesis by (simp add: apply_rule_def)
qed

text \<open>What a rule contributes to the findings, whatever the store.\<close>

lemma analyze_rules_concat:
  "fst (analyze_rules lang minSev path lines rs \<sigma>) = concat (map (rule_part lang minSev path lines) rs)"
proof (induction rs arbitrary: \<sigma>)
  case Nil
  show ?case by simp
next
  case (Cons r rs)
  show ?case
  proof (cases "skipped lang minSev r")
    case True
    then show ?thesis using Cons.IH [of \<sigma>] by (simp add: rule_part_def)
  next
    case False
    have "fst (apply_rule path lines r \<sigma>) = fst (apply_rule path lines r (\<lambda>_. 0))"
      by (rule apply_rule_fst_indep)
    then show ?thesis
      using False Cons.IH [of "snd (apply_rule path lines r \<sigma>)"]
      by (simp add: rule_part_def analyze_rules_Cons_fst del: analyze_rules.simps)
  qed
qed

lemma analyzeFile_concat:
  "fst (analyzeFile \<sigma> path source minSeverity) =
     concat (map (rule_part (detectLanguage path) (or_zero (SEVERITY_get minSeverity)) path (split_on nl source)) rules)"
  by (simp add: analyzeFile_def analyze_rules_concat)

lemma analyzeFile_fst_indep:
  "fst (analyzeFile \<sigma> path source minSeverity) = fst (analyzeFile \<sigma>' path source minSeverity)"
  by (simp add: analyzeFile_concat)

text \<open>Every finding of a line rule sits on a line that is not a comment.\<close>

lemma line_step_finding:
  assumes "f \<in> set (fst (line_step r re fl msg sug cf path i l li))"
  shows "f = mk_finding r (i + 1) msg sug \<and> \<not> is_comment l \<and> re_exec fl re l \<noteq> None"
  using assms by (auto simp: line_step_def split: if_splits option.splits prod.splits)

lemma scan_lines_finding:
  assumes "f \<in> set (fst (scan_lines r re fl msg sug cf path i ls li))"
  shows "\<exists>k<length ls. f = mk_finding r (i + k + 1) msg sug \<and> \<not> is_comment (ls ! k)
           \<and> re_exec fl re (ls ! k) \<noteq> None"
  using assms
proof (induction ls arbitrary: i li)
  case Nil
  then show ?case by simp
next
  case (Cons l ls)
  let ?st = "line_step r re fl msg sug cf path i l li"
  from Cons.prems have "f \<in> set (fst ?st) \<or> f \<in> set (fst (scan_lines r re fl msg sug cf path (Suc i) ls (snd ?st)))"
    by (simp add: scan_lines_Cons_fst del: scan_lines.simps)
  then show ?case
  proof
    assume "f \<in> set (fst ?st)"
    then have "f = mk_finding r (i + 0 + 1) msg sug \<and> \<not> is_comment ((l # ls) ! 0) \<and> re_exec fl re ((l # ls) ! 0) \<noteq> None"
      using line_step_finding by fastforce
    then show ?thesis by blast
  next
    assume "f \<in> set (fst (scan_lines r re fl msg sug cf path (Suc i) ls (snd ?st)))"
    from Cons.IH [OF this] obtain k where k: "k < length ls" "f = mk_finding r (Suc i + k + 1) msg sug"
      "\<not> is_comment (ls ! k)" "re_exec fl re (ls ! k) \<noteq> None" by blast
    then have "Suc k < length (l # ls) \<and> f = mk_finding r (i + Suc k + 1) msg sug
        \<and> \<not> is_comment ((l # ls) ! Suc k) \<and> re_exec fl re ((l # ls) ! Suc k) \<noteq> None"
      by simp
    then show ?thesis by blast
  qed
qed

lemma scan_lines_sorted:
  "sorted_wrt (<) (map line (fst (scan_lines r re fl msg sug cf path i ls li)))"
proof (induction ls arbitrary: i li)
  case Nil
  show ?case by simp
next
  case (Cons l ls)
  let ?st = "line_step r re fl msg sug cf path i l li"
  let ?rest = "fst (scan_lines r re fl msg sug cf path (Suc i) ls (snd ?st))"
  have split: "fst (scan_lines r re fl msg sug cf path i (l # ls) li) = fst ?st @ ?rest"
    by (rule scan_lines_Cons_fst)
  have h1: "\<forall>f\<in>set (fst ?st). line f = i + 1"
    using line_step_finding [of _ r re fl msg sug cf path i l li] by (fastforce simp: mk_finding_def)
  have h2: "\<forall>f\<in>set ?rest. i + 1 < line f"
    using scan_lines_finding [of _ r re fl msg sug cf path "Suc i" ls "snd ?st"] by (fastforce simp: mk_finding_def)
  have h3: "length (fst ?st) \<le> 1"
    by (simp add: line_step_def split: option.splits prod.splits)
  have h4: "sorted_wrt (<) (map line (fst ?st))"
    using h3 by (cases "fst ?st") auto
  show ?case
    unfolding split using h1 h2 h4 Cons.IH [of "Suc i" "snd ?st"]
    by (auto simp: sorted_wrt_append)
qed

section \<open>The long-function check\<close>

lemma check_step_open:
  assumes "open_ok st i"
  shows "open_ok (snd (check_step st i l)) (Suc i)"
  using assms
  by (auto simp: check_step_def open_ok_def Let_def split: option.splits)

lemma check_step_settled:
  assumes "open_ok st i"
  shows "settled (snd (check_step st i l)) (Suc i)"
  using assms
  by (auto simp: check_step_def open_ok_def settled_def Let_def split: option.splits)

lemma check_step_out:
  assumes "open_ok st i" and "b \<in> set (fst (check_step st i l))"
  shows "bline b = low st i \<and> low st i < low (snd (check_step st i l)) (Suc i)"
  using assms
  by (auto simp: check_step_def open_ok_def low_def Let_def split: option.splits if_splits)

lemma check_step_low:
  assumes "open_ok st i"
  shows "low st i \<le> low (snd (check_step st i l)) (Suc i)"
  using assms
  by (auto simp: check_step_def open_ok_def low_def Let_def split: option.splits if_splits)

lemma check_step_length:
  "length (fst (check_step st i l)) \<le> 1"
  by (auto simp: check_step_def Let_def split: option.splits)

lemma check_loop_Cons:
  "check_loop st i (l # ls) = fst (check_step st i l) @ check_loop (snd (check_step st i l)) (Suc i) ls"
  by (simp add: split_beta)

lemma check_loop_low:
  assumes "open_ok st i" and "b \<in> set (check_loop st i ls)"
  shows "low st i \<le> bline b"
  using assms
proof (induction ls arbitrary: st i)
  case Nil
  then show ?case by simp
next
  case (Cons l ls)
  let ?st = "snd (check_step st i l)"
  from Cons.prems(2) have "b \<in> set (fst (check_step st i l)) \<or> b \<in> set (check_loop ?st (Suc i) ls)"
    by (simp add: check_loop_Cons del: check_loop.simps)
  then show ?case
  proof
    assume "b \<in> set (fst (check_step st i l))"
    then show ?thesis using check_step_out [OF Cons.prems(1)] by simp
  next
    assume b: "b \<in> set (check_loop ?st (Suc i) ls)"
    have "low ?st (Suc i) \<le> bline b"
      using Cons.IH [OF check_step_open [OF Cons.prems(1)] b] .
    then show ?thesis using check_step_low [OF Cons.prems(1), of l] by simp
  qed
qed

lemma check_loop_sorted:
  assumes "open_ok st i"
  shows "sorted_wrt (<) (map bline (check_loop st i ls))"
  using assms
proof (induction ls arbitrary: st i)
  case Nil
  show ?case by simp
next
  case (Cons l ls)
  let ?out = "fst (check_step st i l)"
  let ?st = "snd (check_step st i l)"
  have op: "open_ok ?st (Suc i)" using check_step_open [OF Cons.prems] .
  have h1: "sorted_wrt (<) (map bline ?out)"
    using check_step_length [of st i l] by (cases ?out) auto
  have h2: "\<forall>a\<in>set ?out. \<forall>b\<in>set (check_loop ?st (Suc i) ls). bline a < bline b"
  proof (intro ballI)
    fix a b
    assume a: "a \<in> set ?out" and b: "b \<in> set (check_loop ?st (Suc i) ls)"
    have "bline a = low st i \<and> low st i < low ?st (Suc i)"
      using check_step_out [OF Cons.prems a] .
    moreover have "low ?st (Suc i) \<le> bline b" using check_loop_low [OF op b] .
    ultimately show "bline a < bline b" by simp
  qed
  show ?case
    using h1 h2 Cons.IH [OF op]
    by (simp add: check_loop_Cons sorted_wrt_append del: check_loop.simps)
qed

lemma GEN002_check_sorted: "sorted_wrt (<) (map bline (GEN002_check lines))"
  by (simp add: GEN002_check_def check_loop_sorted open_ok_def)

lemma GEN002_check_positive:
  assumes "b \<in> set (GEN002_check lines)"
  shows "1 \<le> bline b"
proof -
  have "open_ok \<lparr>funcStart = -1, braceDepth = 0, funcName = []\<rparr> 0" by (simp add: open_ok_def)
  from check_loop_low [OF this] assms show ?thesis
    by (fastforce simp: GEN002_check_def low_def)
qed

text \<open>An empty line at the end changes nothing.\<close>

lemma funcMatch_empty: "funcMatch [] = None"
  by code_simp

lemma check_step_empty:
  assumes "open_ok st i" and "settled st i"
  shows "fst (check_step st i []) = []"
  using assms
  by (auto simp: check_step_def funcMatch_empty count_char_def open_ok_def settled_def Let_def)

lemma check_loop_snoc_empty:
  assumes "open_ok st i" and "settled st i"
  shows "check_loop st i (ls @ [[]]) = check_loop st i ls"
  using assms
proof (induction ls arbitrary: st i)
  case Nil
  then show ?case using check_step_empty by (simp add: split_beta)
next
  case (Cons l ls)
  have "check_loop (snd (check_step st i l)) (Suc i) (ls @ [[]]) = check_loop (snd (check_step st i l)) (Suc i) ls"
    using Cons.IH [OF check_step_open [OF Cons.prems(1)] check_step_settled [OF Cons.prems(1)]] .
  then show ?case by (simp add: split_beta)
qed

lemma GEN002_check_snoc_empty: "GEN002_check (ls @ [[]]) = GEN002_check ls"
  by (simp add: GEN002_check_def check_loop_snoc_empty open_ok_def settled_def)

section \<open>The rule table\<close>

lemma rules_distinct: "distinct (map rid rules)"
  by code_simp

lemma line_rules: "list_all (\<lambda>r. \<not> is_block r) (butlast rules)"
  by code_simp

lemma block_rules:
  assumes "r \<in> set rules" and "rmatcher r = BlockRule chk"
  shows "r = GEN002 \<and> chk = GEN002_check"
proof -
  have "rules = butlast rules @ [GEN002]"
    by (simp add: rules_def)
  then have "set rules = set (butlast rules) \<union> {GEN002}"
    by (metis list.set(1) list.set(2) set_append)
  then have "r \<in> set (butlast rules) \<or> r = GEN002"
    using assms(1) by blast
  moreover have "r \<notin> set (butlast rules)"
    using line_rules assms(2) by (auto simp: list_all_iff is_block_def)
  ultimately have "r = GEN002" by blast
  then show ?thesis using assms(2) by (simp add: GEN002_def)
qed

lemma GEN002_in_rules: "GEN002 \<in> set rules"
  by (simp add: rules_def)

lemma rules_empty_ok: "list_all empty_ok rules"
  by code_simp

section \<open>Splitting\<close>

lemma split_on_nonempty: "split_on d xs \<noteq> []"
  by (induction xs) (auto split: list.splits)

lemma split_on_snoc: "split_on d (xs @ [d]) = split_on d xs @ [[]]"
proof (induction xs)
  case Nil
  show ?case by simp
next
  case (Cons x xs)
  then show ?case using split_on_nonempty [of d xs]
    by (cases "split_on d xs") auto
qed

section \<open>The comment pattern\<close>

lemma first_end_None: "first_end f is = None \<longleftrightarrow> (\<forall>i\<in>set is. f i = [])"
  by (induction "is") (auto split: list.splits)

lemma ends_Sp:
  "ends no_flags s Sp i = (if i < length s \<and> js_space (s ! i) then [Suc i] else [])"
  by (simp add: Sp_def cls_has_def citem_has_def no_flags_def)

lemma rep_star_set:
  assumes f: "\<And>i. f i = (if i < n \<and> P i then [Suc i] else [])"
  shows "i \<le> n \<Longrightarrow> set (rep f True 0 None n i) = {j. i \<le> j \<and> j \<le> n \<and> (\<forall>k. i \<le> k \<and> k < j \<longrightarrow> P k)}"
proof (induction "n - i" arbitrary: i)
  case 0
  then have "i = n" by simp
  then show ?case
    by (subst rep.simps) (auto simp: f dec_max_def)
next
  case (Suc d)
  then have lt: "i < n" by simp
  show ?case
  proof (cases "P i")
    case True
    have ih: "set (rep f True 0 None n (Suc i)) = {j. Suc i \<le> j \<and> j \<le> n \<and> (\<forall>k. Suc i \<le> k \<and> k < j \<longrightarrow> P k)}"
      using Suc.hyps(1) [of "Suc i"] Suc.hyps(2) lt by simp
    have "rep f True 0 None n i = rep f True 0 None n (Suc i) @ [i]"
      using True lt by (subst rep.simps) (simp add: f dec_max_def)
    then have st: "set (rep f True 0 None n i) = insert i (set (rep f True 0 None n (Suc i)))"
      by simp
    have "insert i {j. Suc i \<le> j \<and> j \<le> n \<and> (\<forall>k. Suc i \<le> k \<and> k < j \<longrightarrow> P k)}
        = {j. i \<le> j \<and> j \<le> n \<and> (\<forall>k. i \<le> k \<and> k < j \<longrightarrow> P k)}"
    proof (rule set_eqI)
      fix j
      have "(\<forall>k. i \<le> k \<and> k < j \<longrightarrow> P k) \<longleftrightarrow> (\<forall>k. Suc i \<le> k \<and> k < j \<longrightarrow> P k)"
        using True by (metis Suc_leI le_neq_implies_less Suc_leD)
      then show "j \<in> insert i {j. Suc i \<le> j \<and> j \<le> n \<and> (\<forall>k. Suc i \<le> k \<and> k < j \<longrightarrow> P k)}
          \<longleftrightarrow> j \<in> {j. i \<le> j \<and> j \<le> n \<and> (\<forall>k. i \<le> k \<and> k < j \<longrightarrow> P k)}"
        using lt by (cases "j = i") auto
    qed
    then show ?thesis using st ih by simp
  next
    case False
    have "rep f True 0 None n i = [i]"
      using False by (subst rep.simps) (simp add: f dec_max_def)
    moreover have "{j. i \<le> j \<and> j \<le> n \<and> (\<forall>k. i \<le> k \<and> k < j \<longrightarrow> P k)} = {i}"
      using False lt by (auto simp: le_less)
    ultimately show ?thesis by simp
  qed
qed

lemma lit_at_prefix: "lit_at no_flags cs s i \<longleftrightarrow> i \<le> length s \<and> prefix cs (drop i s)"
proof -
  have eq: "chr_eq no_flags = (=)"
    by (intro ext) (simp add: chr_eq_def no_flags_def)
  have "list_all2 (=) cs (take (length cs) (drop i s)) \<longleftrightarrow> cs = take (length cs) (drop i s)"
    by (simp add: list.rel_eq)
  moreover have "i + length cs \<le> length s \<and> cs = take (length cs) (drop i s)
       \<longleftrightarrow> i \<le> length s \<and> prefix cs (drop i s)"
  proof
    assume a: "i + length cs \<le> length s \<and> cs = take (length cs) (drop i s)"
    then have "prefix cs (drop i s)" by (metis take_is_prefix)
    then show "i \<le> length s \<and> prefix cs (drop i s)" using a by simp
  next
    assume a: "i \<le> length s \<and> prefix cs (drop i s)"
    then obtain zs where zs: "drop i s = cs @ zs" by (auto simp: prefix_def)
    then have "length (drop i s) = length cs + length zs" by simp
    then have "length s - i = length cs + length zs" by simp
    then have "i + length cs \<le> length s" using a by arith
    then show "i + length cs \<le> length s \<and> cs = take (length cs) (drop i s)" using zs by simp
  qed
  ultimately show ?thesis by (simp add: lit_at_def eq)
qed

lemma leaders_match:
  "ends no_flags s (seqs [alts [Lit ''//'', Lit ''#'', Lit ''/*'', Lit ''*'', Lit ''--'', Lit '';'']]) j \<noteq> []
     \<longleftrightarrow> j \<le> length s \<and> list_ex (\<lambda>ld. prefix ld (drop j s)) comment_leaders"
proof -
  have a: "\<And>cs. lit_at no_flags cs s j \<Longrightarrow> lit_at no_flags [] s (j + length cs)"
    by (simp add: lit_at_def)
  show ?thesis
    using a [of "''//''"] a [of "''#''"] a [of "''/*''"] a [of "''*''"] a [of "''--''"] a [of "'';''"]
    by (auto simp: seqs_def alts_def comment_leaders_def lit_at_prefix)
qed

lemma is_comment_iff: "is_comment l \<longleftrightarrow> comment_led l"
proof -
  let ?n = "length l"
  let ?tail = "seqs [alts [Lit ''//'', Lit ''#'', Lit ''/*'', Lit ''*'', Lit ''--'', Lit '';'']]"
  let ?k = "length (takeWhile js_space l)"
  have shape: "comment_re = Seq Bol (Seq (Star Sp) ?tail)"
    by (simp add: comment_re_def seqs_def)
  have bol: "\<And>i. ends no_flags l Bol i = (if i = 0 then [0] else [])"
    by (simp add: no_flags_def)
  have star: "set (ends no_flags l (Star Sp) 0) = {j. j \<le> ?n \<and> (\<forall>k. k < j \<longrightarrow> js_space (l ! k))}"
    using rep_star_set [of "ends no_flags l Sp" ?n "\<lambda>i. js_space (l ! i)" 0]
    by (simp add: Star_def ends_Sp)
  have at0: "ends no_flags l comment_re 0 \<noteq> [] \<longleftrightarrow>
      (\<exists>j. j \<le> ?n \<and> (\<forall>k. k < j \<longrightarrow> js_space (l ! k)) \<and> ends no_flags l ?tail j \<noteq> [])"
  proof -
    have "ends no_flags l comment_re 0 = concat (map (ends no_flags l ?tail) (ends no_flags l (Star Sp) 0))"
      by (simp add: shape bol)
    then have "ends no_flags l comment_re 0 \<noteq> [] \<longleftrightarrow> (\<exists>j\<in>set (ends no_flags l (Star Sp) 0). ends no_flags l ?tail j \<noteq> [])"
      by auto
    then show ?thesis unfolding star by auto
  qed
  have later: "\<And>i. 0 < i \<Longrightarrow> ends no_flags l comment_re i = []"
    by (simp add: shape no_flags_def)
  have test: "is_comment l \<longleftrightarrow> ends no_flags l comment_re 0 \<noteq> []"
  proof -
    have "is_comment l \<longleftrightarrow> (\<exists>i\<in>set [0..<Suc ?n]. ends no_flags l comment_re i \<noteq> [])"
      by (simp add: is_comment_def re_test_def re_exec_def first_end_None)
    also have "\<dots> \<longleftrightarrow> ends no_flags l comment_re 0 \<noteq> []"
      using later by (metis atLeastLessThan_iff bot_nat_0.not_eq_extremum set_upt zero_less_Suc zero_le)
    finally show ?thesis .
  qed
  have run: "\<And>j. j \<le> ?n \<and> (\<forall>k. k < j \<longrightarrow> js_space (l ! k)) \<longleftrightarrow> j \<le> ?k"
  proof
    fix j
    assume a: "j \<le> ?n \<and> (\<forall>k. k < j \<longrightarrow> js_space (l ! k))"
    show "j \<le> ?k"
    proof (rule ccontr)
      assume "\<not> j \<le> ?k"
      then have lt: "?k < j" by simp
      then have "?k < ?n" using a by simp
      then have "\<not> js_space (l ! ?k)" by (rule nth_length_takeWhile)
      then show False using a lt by blast
    qed
  next
    fix j
    assume a: "j \<le> ?k"
    have "?k \<le> ?n" by (rule length_takeWhile_le)
    moreover have "\<forall>k. k < j \<longrightarrow> js_space (l ! k)"
    proof (intro allI impI)
      fix k assume "k < j"
      then have kk: "k < ?k" using a by simp
      then have "takeWhile js_space l ! k = l ! k" by (rule takeWhile_nth)
      moreover have "js_space (takeWhile js_space l ! k)"
        using kk by (metis nth_mem set_takeWhileD)
      ultimately show "js_space (l ! k)" by simp
    qed
    ultimately show "j \<le> ?n \<and> (\<forall>k. k < j \<longrightarrow> js_space (l ! k))" using a by simp
  qed
  have nospace: "\<And>j. j < ?k \<Longrightarrow> \<not> list_ex (\<lambda>ld. prefix ld (drop j l)) comment_leaders"
  proof -
    fix j assume j: "j < ?k"
    have "?k \<le> ?n" by (rule length_takeWhile_le)
    then have jn: "j < ?n" using j by simp
    have "takeWhile js_space l ! j = l ! j" using j by (rule takeWhile_nth)
    moreover have "js_space (takeWhile js_space l ! j)"
      using j by (metis nth_mem set_takeWhileD)
    ultimately have sp: "js_space (l ! j)" by simp
    have d: "drop j l = l ! j # drop (Suc j) l"
      using jn by (simp add: Cons_nth_drop_Suc)
    have "\<not> js_space (CHR ''/'')" "\<not> js_space (CHR ''#'')" "\<not> js_space (CHR ''*'')"
         "\<not> js_space (CHR ''-'')" "\<not> js_space (CHR '';'')"
      by (simp_all add: js_space_def code_def)
    then show "\<not> list_ex (\<lambda>ld. prefix ld (drop j l)) comment_leaders"
      using sp unfolding d by (auto simp: comment_leaders_def)
  qed
  have dw: "drop ?k l = dropWhile js_space l"
    by (simp add: dropWhile_eq_drop)
  have "is_comment l \<longleftrightarrow> (\<exists>j. j \<le> ?k \<and> list_ex (\<lambda>ld. prefix ld (drop j l)) comment_leaders)"
  proof -
    have "is_comment l \<longleftrightarrow>
        (\<exists>j. (j \<le> ?n \<and> (\<forall>k. k < j \<longrightarrow> js_space (l ! k))) \<and> ends no_flags l ?tail j \<noteq> [])"
      using test at0 by blast
    also have "\<dots> \<longleftrightarrow> (\<exists>j. j \<le> ?k \<and> ends no_flags l ?tail j \<noteq> [])"
      by (simp only: run)
    also have "\<dots> \<longleftrightarrow> (\<exists>j. j \<le> ?k \<and> j \<le> ?n \<and> list_ex (\<lambda>ld. prefix ld (drop j l)) comment_leaders)"
      by (simp only: leaders_match)
    also have "\<dots> \<longleftrightarrow> (\<exists>j. j \<le> ?k \<and> list_ex (\<lambda>ld. prefix ld (drop j l)) comment_leaders)"
      using length_takeWhile_le [of js_space l] by (meson le_trans)
    finally show ?thesis .
  qed
  also have "\<dots> \<longleftrightarrow> list_ex (\<lambda>ld. prefix ld (drop ?k l)) comment_leaders"
    using nospace by (metis le_neq_implies_less order_refl)
  finally show ?thesis by (simp add: comment_led_def dw)
qed

section \<open>Findings and their rules\<close>

lemma apply_rule_ids:
  assumes "f \<in> set (fst (apply_rule path lines r \<sigma>))"
  shows "ruleId f = rid r \<and> ruleName f = rname r \<and> severity f = rseverity r"
proof (cases "rmatcher r")
  case (LineRule re fl msg sug cf)
  then have "f \<in> set (fst (scan_lines r re fl msg sug cf path 0 lines (\<sigma> (rid r))))"
    using assms by (simp add: apply_rule_def split_beta)
  from scan_lines_finding [OF this] show ?thesis
    by (auto simp: mk_finding_def)
next
  case (BlockRule chk)
  then show ?thesis using assms
    by (auto simp: apply_rule_def block_finding_def mk_finding_def)
qed

lemma rule_part_ids:
  assumes "f \<in> set (rule_part lang minSev path lines r)"
  shows "ruleId f = rid r \<and> ruleName f = rname r \<and> severity f = rseverity r \<and> \<not> skipped lang minSev r"
  using assms apply_rule_ids [of f path lines r "\<lambda>_. 0"]
  by (auto simp: rule_part_def split: if_splits)

lemma finding_rule:
  assumes "f \<in> set (fst (analyzeFile \<sigma> path source minSeverity))"
  shows "\<exists>r\<in>set rules.
           f \<in> set (rule_part (detectLanguage path) (or_zero (SEVERITY_get minSeverity)) path (split_on nl source) r)"
  using assms by (auto simp: analyzeFile_concat)

lemma floor_of_level:
  assumes "minSeverity \<in> {''info'', ''warning'', ''error''}"
  shows "\<exists>lvl. severity_of_string minSeverity = Some lvl \<and> or_zero (SEVERITY_get minSeverity) = Num (SEVERITY lvl)"
  using assms by (auto simp: severity_of_string_def SEVERITY_get_def or_zero_def)

lemma floor_of_other:
  assumes "minSeverity \<notin> {''info'', ''warning'', ''error''}"
  shows "or_zero (SEVERITY_get minSeverity) = Num 0 \<or> or_zero (SEVERITY_get minSeverity) = Inherited"
  using assms by (auto simp: severity_of_string_def SEVERITY_get_def or_zero_def)

text \<open>
  C1. For a level among \<open>info\<close>, \<open>warning\<close>, \<open>error\<close>, every finding that \<open>analyzeFile\<close>
  returns carries the id and severity of a rule of the table whose severity is at least
  the requested floor, and whose languages contain the wildcard or the language detected
  from the path.
\<close>

theorem analyzeFile_findings_applicable:
  assumes "minSeverity \<in> {''info'', ''warning'', ''error''}"
    and "f \<in> set (fst (analyzeFile \<sigma> path source minSeverity))"
  shows "\<exists>r lvl. r \<in> set rules \<and> ruleId f = rid r \<and> severity f = rseverity r
           \<and> severity_of_string minSeverity = Some lvl \<and> SEVERITY lvl \<le> SEVERITY (rseverity r)
           \<and> (''*'' \<in> set (languages r)
                \<or> (\<exists>t. detectLanguage path = Tag t \<and> t \<in> set (languages r)))"
proof -
  from floor_of_level [OF assms(1)] obtain lvl where
    lvl: "severity_of_string minSeverity = Some lvl" "or_zero (SEVERITY_get minSeverity) = Num (SEVERITY lvl)"
    by blast
  from finding_rule [OF assms(2)] obtain r where r: "r \<in> set rules"
    "f \<in> set (rule_part (detectLanguage path) (Num (SEVERITY lvl)) path (split_on nl source) r)"
    using lvl(2) by auto
  from rule_part_ids [OF r(2)] have ids: "ruleId f = rid r" "severity f = rseverity r"
    and ns: "\<not> skipped (detectLanguage path) (Num (SEVERITY lvl)) r" by simp_all
  from ns have "SEVERITY lvl \<le> SEVERITY (rseverity r)"
    by (simp add: skipped_def num_lt_def)
  moreover from ns have "''*'' \<in> set (languages r)
      \<or> (\<exists>t. detectLanguage path = Tag t \<and> t \<in> set (languages r))"
    by (auto simp: skipped_def includes_lang_def split: langval.splits)
  ultimately show ?thesis using r(1) ids lvl(1) by blast
qed

text \<open>Witness: a text file with a tracked-debt marker after code, at floor \<open>info\<close>.\<close>

lemma witness_run:
  "fst (analyzeFile fresh ''notes.txt'' ''x // TODO: y'' ''info'')
     = [mk_finding BUG006 1 BUG006_message BUG006_suggestion]"
  by code_simp

theorem analyzeFile_findings_applicable_witness:
  "\<exists>r lvl. r \<in> set rules \<and> ruleId (mk_finding BUG006 1 BUG006_message BUG006_suggestion) = rid r
       \<and> severity (mk_finding BUG006 1 BUG006_message BUG006_suggestion) = rseverity r
       \<and> severity_of_string ''info'' = Some lvl \<and> SEVERITY lvl \<le> SEVERITY (rseverity r)
       \<and> (''*'' \<in> set (languages r)
            \<or> (\<exists>t. detectLanguage ''notes.txt'' = Tag t \<and> t \<in> set (languages r)))"
proof -
  have a: "''info'' \<in> {''info'', ''warning'', ''error''}" by simp
  have b: "mk_finding BUG006 1 BUG006_message BUG006_suggestion
             \<in> set (fst (analyzeFile fresh ''notes.txt'' ''x // TODO: y'' ''info''))"
    by (simp add: witness_run)
  show ?thesis using analyzeFile_findings_applicable [OF a b] .
qed

section \<open>Unknown levels\<close>

lemma analyze_rules_skipped_cong:
  assumes "\<And>r. skipped lang a r = skipped lang b r"
  shows "analyze_rules lang a path lines rs \<sigma> = analyze_rules lang b path lines rs \<sigma>"
  by (induction rs arbitrary: \<sigma>) (simp_all add: assms)

text \<open>
  C10, as the code has it. For a level that is none of \<open>info\<close>, \<open>warning\<close>, \<open>error\<close> the
  floor \<open>SEVERITY[minSeverity] || 0\<close> is 0, unless the level is a name that the table
  inherits from \<open>Object.prototype\<close> (such as \<open>constructor\<close>): then it is the inherited
  member, not a number. Either way the severity test skips no rule, and the result (and the
  store) is exactly that of level \<open>info\<close>, whose floor is 0.
\<close>

theorem analyzeFile_unknown_level:
  assumes "minSeverity \<notin> {''info'', ''warning'', ''error''}"
  shows "analyzeFile \<sigma> path source minSeverity = analyzeFile \<sigma> path source ''info''
         \<and> or_zero (SEVERITY_get minSeverity)
             = (if minSeverity \<in> set object_prototype_keys then Inherited else Num 0)
         \<and> or_zero (SEVERITY_get ''info'') = Num 0
         \<and> (\<forall>r::rule. \<not> num_lt (SEVERITY (rseverity r)) (or_zero (SEVERITY_get minSeverity)))"
proof -
  have info: "or_zero (SEVERITY_get ''info'') = Num 0"
    by (simp add: severity_of_string_def SEVERITY_get_def or_zero_def)
  have floor: "or_zero (SEVERITY_get minSeverity)
             = (if minSeverity \<in> set object_prototype_keys then Inherited else Num 0)"
    using assms by (simp add: severity_of_string_def SEVERITY_get_def or_zero_def)
  have never: "\<And>r::rule. \<not> num_lt (SEVERITY (rseverity r)) (or_zero (SEVERITY_get minSeverity))"
    using floor_of_other [OF assms] by (auto simp: num_lt_def)
  have zero: "\<And>a. \<not> num_lt a (Num 0)"
    by (simp add: num_lt_def)
  have "\<And>r. skipped (detectLanguage path) (or_zero (SEVERITY_get minSeverity)) r
           = skipped (detectLanguage path) (Num 0) r"
    using never zero by (simp add: skipped_def)
  then have "analyzeFile \<sigma> path source minSeverity = analyzeFile \<sigma> path source ''info''"
    unfolding analyzeFile_def info by (rule analyze_rules_skipped_cong)
  then show ?thesis using never info floor by blast
qed

text \<open>
  Witness: at the mistyped level \<open>Warning\<close> and at the inherited name \<open>constructor\<close> the
  marker of a text file, a finding of severity \<open>info\<close>, is reported as at level \<open>info\<close>; the
  floor is 0 for the first and the inherited member for the second.
\<close>

theorem analyzeFile_unknown_level_witness:
  "fst (analyzeFile fresh ''notes.txt'' ''x // TODO: y'' ''Warning'')
     = [mk_finding BUG006 1 BUG006_message BUG006_suggestion]
   \<and> or_zero (SEVERITY_get ''Warning'') = Num 0
   \<and> fst (analyzeFile fresh ''notes.txt'' ''x // TODO: y'' ''constructor'')
     = [mk_finding BUG006 1 BUG006_message BUG006_suggestion]
   \<and> or_zero (SEVERITY_get ''constructor'') = Inherited"
proof -
  have a: "''Warning'' \<notin> {''info'', ''warning'', ''error''}" by simp
  have b: "''constructor'' \<notin> {''info'', ''warning'', ''error''}" by simp
  have ka: "''Warning'' \<notin> set object_prototype_keys"
    by (simp add: object_prototype_keys_def)
  have kb: "''constructor'' \<in> set object_prototype_keys"
    by (simp add: object_prototype_keys_def)
  from analyzeFile_unknown_level [OF a, of fresh "''notes.txt''" "''x // TODO: y''"]
  have a1: "analyzeFile fresh ''notes.txt'' ''x // TODO: y'' ''Warning''
              = analyzeFile fresh ''notes.txt'' ''x // TODO: y'' ''info''"
    and a2: "or_zero (SEVERITY_get ''Warning'') = Num 0"
    using ka by simp_all
  from analyzeFile_unknown_level [OF b, of fresh "''notes.txt''" "''x // TODO: y''"]
  have b1: "analyzeFile fresh ''notes.txt'' ''x // TODO: y'' ''constructor''
              = analyzeFile fresh ''notes.txt'' ''x // TODO: y'' ''info''"
    and b2: "or_zero (SEVERITY_get ''constructor'') = Inherited"
    using kb by simp_all
  show ?thesis unfolding a1 b1 using a2 b2 witness_run by simp
qed

text \<open>
  The claim's "the numeric floor becomes 0" fails at the level \<open>constructor\<close>, which is none
  of the three levels: the floor is the inherited member.
\<close>

theorem analyzeFile_unknown_level_floor_counterexample:
  "''constructor'' \<notin> {''info'', ''warning'', ''error''}
   \<and> or_zero (SEVERITY_get ''constructor'') = Inherited
   \<and> or_zero (SEVERITY_get ''constructor'') \<noteq> Num 0"
  by (simp add: severity_of_string_def SEVERITY_get_def or_zero_def object_prototype_keys_def)

section \<open>Order of the findings\<close>

lemma apply_rule_sorted:
  assumes "r \<in> set rules"
  shows "sorted_wrt (<) (map line (fst (apply_rule path lines r \<sigma>)))
         \<and> (\<forall>f\<in>set (fst (apply_rule path lines r \<sigma>)). 1 \<le> line f)"
proof (cases "rmatcher r")
  case (LineRule re fl msg sug cf)
  have eq: "fst (apply_rule path lines r \<sigma>) = fst (scan_lines r re fl msg sug cf path 0 lines (\<sigma> (rid r)))"
    using LineRule by (simp add: apply_rule_def split_beta)
  have "\<forall>f\<in>set (fst (scan_lines r re fl msg sug cf path 0 lines (\<sigma> (rid r)))). 1 \<le> line f"
    using scan_lines_finding [of _ r re fl msg sug cf path 0 lines "\<sigma> (rid r)"]
    by (fastforce simp: mk_finding_def)
  then show ?thesis unfolding eq using scan_lines_sorted by blast
next
  case (BlockRule chk)
  from block_rules [OF assms BlockRule] have chk: "chk = GEN002_check" by simp
  have eq: "map line (fst (apply_rule path lines r \<sigma>)) = map bline (GEN002_check lines)"
    using BlockRule chk by (simp add: apply_rule_def block_finding_def mk_finding_def comp_def)
  have "\<forall>f\<in>set (fst (apply_rule path lines r \<sigma>)). 1 \<le> line f"
    using BlockRule chk GEN002_check_positive
    by (auto simp: apply_rule_def block_finding_def mk_finding_def)
  then show ?thesis unfolding eq using GEN002_check_sorted by blast
qed

text \<open>
  C4. The findings are the concatenation, in the order of the rule table, of one part per
  rule; the findings of a part carry that rule's id (ids are distinct in the table), and
  their line numbers, all at least 1, increase strictly.
\<close>

theorem analyzeFile_order:
  "distinct (map rid rules)
   \<and> (\<exists>parts. length parts = length rules
        \<and> fst (analyzeFile \<sigma> path source minSeverity) = concat parts
        \<and> (\<forall>k<length rules. (\<forall>f\<in>set (parts ! k). ruleId f = rid (rules ! k) \<and> 1 \<le> line f)
                               \<and> sorted_wrt (<) (map line (parts ! k))))"
proof -
  let ?part = "rule_part (detectLanguage path) (or_zero (SEVERITY_get minSeverity)) path (split_on nl source)"
  have each: "(\<forall>f\<in>set (?part r). ruleId f = rid r \<and> 1 \<le> line f) \<and> sorted_wrt (<) (map line (?part r))"
    if "r \<in> set rules" for r
    using apply_rule_sorted [OF that, of path "split_on nl source" "\<lambda>_. 0"]
          apply_rule_ids [of _ path "split_on nl source" r "\<lambda>_. 0"]
    by (auto simp: rule_part_def)
  have nth: "\<forall>k<length rules. (\<forall>f\<in>set (map ?part rules ! k). ruleId f = rid (rules ! k) \<and> 1 \<le> line f)
                               \<and> sorted_wrt (<) (map line (map ?part rules ! k))"
  proof (intro allI impI)
    fix k
    assume k: "k < length rules"
    then have "rules ! k \<in> set rules" by simp
    from each [OF this] show "(\<forall>f\<in>set (map ?part rules ! k). ruleId f = rid (rules ! k) \<and> 1 \<le> line f)
                               \<and> sorted_wrt (<) (map line (map ?part rules ! k))"
      using k by simp
  qed
  have "length (map ?part rules) = length rules
        \<and> fst (analyzeFile \<sigma> path source minSeverity) = concat (map ?part rules)"
    by (simp add: analyzeFile_concat)
  then show ?thesis using rules_distinct nth by blast
qed

text \<open>Witness: the part of BUG006, the rule at index 13, for a text file with one marker.\<close>

theorem analyzeFile_order_witness:
  "\<exists>parts. length parts = length rules
      \<and> fst (analyzeFile fresh ''notes.txt'' ''x // TODO: y'' ''info'') = concat parts
      \<and> list_all (\<lambda>f. ruleId f = rid (rules ! 13) \<and> 1 \<le> line f) (parts ! 13)
      \<and> sorted_wrt (<) (map line (parts ! 13))"
proof -
  have k: "13 < length rules" by (simp add: rules_def)
  from analyzeFile_order [of fresh "''notes.txt''" "''x // TODO: y''" "''info''"]
  obtain parts where p: "length parts = length rules"
    "fst (analyzeFile fresh ''notes.txt'' ''x // TODO: y'' ''info'') = concat parts"
    "\<forall>k<length rules. (\<forall>f\<in>set (parts ! k). ruleId f = rid (rules ! k) \<and> 1 \<le> line f)
                               \<and> sorted_wrt (<) (map line (parts ! k))"
    by blast
  from p(3) k have "(\<forall>f\<in>set (parts ! 13). ruleId f = rid (rules ! 13) \<and> 1 \<le> line f)
                               \<and> sorted_wrt (<) (map line (parts ! 13))"
    by blast
  then have "list_all (\<lambda>f. ruleId f = rid (rules ! 13) \<and> 1 \<le> line f) (parts ! 13)
      \<and> sorted_wrt (<) (map line (parts ! 13))"
    by (simp add: list_all_iff)
  then show ?thesis using p(1,2) by blast
qed

section \<open>Comment lines\<close>

lemma concat_filter_key:
  assumes "distinct (map g rs)" and "\<forall>r\<in>set rs. \<forall>f\<in>set (h r). k f = g r" and "r \<in> set rs"
  shows "filter (\<lambda>f. k f = g r) (concat (map h rs)) = h r"
  using assms
proof (induction rs)
  case Nil
  then show ?case by simp
next
  case (Cons a rs)
  show ?case
  proof (cases "r = a")
    case True
    have all: "filter (\<lambda>f. k f = g r) (h a) = h a"
      using Cons.prems(2) True by (simp add: filter_id_conv)
    have "\<forall>r'\<in>set rs. \<forall>f\<in>set (h r'). k f \<noteq> g r"
      using Cons.prems(1,2) True by (metis distinct.simps(2) image_eqI list.set_intros(2) list.simps(9) set_map)
    then have "filter (\<lambda>f. k f = g r) (concat (map h rs)) = []"
      by (auto simp: filter_empty_conv)
    then show ?thesis using all True by simp
  next
    case False
    then have r: "r \<in> set rs" using Cons.prems(3) by simp
    then have "g a \<noteq> g r" using Cons.prems(1) by (metis distinct.simps(2) image_eqI list.simps(9) set_map)
    then have "filter (\<lambda>f. k f = g r) (h a) = []"
      using Cons.prems(2) by (auto simp: filter_empty_conv)
    moreover have "filter (\<lambda>f. k f = g r) (concat (map h rs)) = h r"
      using Cons.IH Cons.prems(1,2) r by simp
    ultimately show ?thesis by simp
  qed
qed

lemma findings_of_rule:
  assumes "r \<in> set rules"
  shows "filter (\<lambda>f. ruleId f = rid r) (fst (analyzeFile \<sigma> path source minSeverity))
         = rule_part (detectLanguage path) (or_zero (SEVERITY_get minSeverity)) path (split_on nl source) r"
  unfolding analyzeFile_concat
  using rule_part_ids by (intro concat_filter_key [OF rules_distinct _ assms]) blast

lemma GEN002_part:
  "rule_part lang minSev path lines GEN002
     = (if num_lt 0 minSev then [] else map (block_finding GEN002) (GEN002_check lines))"
  by (simp add: rule_part_def skipped_def apply_rule_def GEN002_def)

lemma rule_of_id:
  assumes "r \<in> set rules" and "r' \<in> set rules" and "rid r = rid r'"
  shows "r = r'"
  using assms rules_distinct by (meson distinct_map inj_onD)

text \<open>
  C5. A line that, after leading whitespace, begins with one of the comment leaders carries
  no finding of any line rule of the table; the findings of the block rule GEN002 are
  those of its check on all the lines of the file, comment lines included.
\<close>

theorem comment_lines_skipped:
  assumes "k < length (split_on nl source)" and "comment_led (split_on nl source ! k)"
  shows "(\<forall>f\<in>set (fst (analyzeFile \<sigma> path source minSeverity)).
            \<forall>r\<in>set rules. ruleId f = rid r \<and> \<not> is_block r \<longrightarrow> line f \<noteq> k + 1)
         \<and> filter (\<lambda>f. ruleId f = rid GEN002) (fst (analyzeFile \<sigma> path source minSeverity))
             = (if num_lt 0 (or_zero (SEVERITY_get minSeverity)) then []
                else map (block_finding GEN002) (GEN002_check (split_on nl source)))"
proof
  let ?lines = "split_on nl source"
  show "\<forall>f\<in>set (fst (analyzeFile \<sigma> path source minSeverity)).
            \<forall>r\<in>set rules. ruleId f = rid r \<and> \<not> is_block r \<longrightarrow> line f \<noteq> k + 1"
  proof (intro ballI impI)
    fix f r'
    assume f: "f \<in> set (fst (analyzeFile \<sigma> path source minSeverity))"
      and r': "r' \<in> set rules" and id: "ruleId f = rid r' \<and> \<not> is_block r'"
    from finding_rule [OF f] obtain r where r: "r \<in> set rules"
      "f \<in> set (rule_part (detectLanguage path) (or_zero (SEVERITY_get minSeverity)) path ?lines r)"
      by blast
    from rule_part_ids [OF r(2)] have "ruleId f = rid r" by (rule conjunct1)
    then have "rid r = rid r'" using id by metis
    then have "r = r'" by (rule rule_of_id [OF r(1) r'])
    then have "\<not> is_block r" using id by simp
    then obtain re fl msg sug cf where lr: "rmatcher r = LineRule re fl msg sug cf"
      by (cases "rmatcher r") (auto simp: is_block_def)
    have "f \<in> set (fst (scan_lines r re fl msg sug cf path 0 ?lines 0))"
      using r(2) lr by (simp add: rule_part_def apply_rule_def split_beta split: if_splits)
    from scan_lines_finding [OF this] obtain j where
      j: "j < length ?lines" "f = mk_finding r (0 + j + 1) msg sug" "\<not> is_comment (?lines ! j)"
      by blast
    have "is_comment (?lines ! k)" using assms(2) by (simp add: is_comment_iff)
    then have "j \<noteq> k" using j(3) by blast
    then show "line f \<noteq> k + 1" using j(2) by (simp add: mk_finding_def)
  qed
next
  show "filter (\<lambda>f. ruleId f = rid GEN002) (fst (analyzeFile \<sigma> path source minSeverity))
             = (if num_lt 0 (or_zero (SEVERITY_get minSeverity)) then []
                else map (block_finding GEN002) (GEN002_check (split_on nl source)))"
    using findings_of_rule [OF GEN002_in_rules, of \<sigma> path source minSeverity]
    by (simp add: GEN002_part)
qed

text \<open>Witness: the second line of a script is a comment that mentions \<open>eval\<close>.\<close>

theorem comment_lines_skipped_witness:
  "filter (\<lambda>f. line f = 2 \<and> list_ex (\<lambda>r. ruleId f = rid r \<and> \<not> is_block r) rules)
      (fst (analyzeFile fresh ''app.js'' (''x'' @ [nl] @ '' // eval(y)'') ''info'')) = []"
proof -
  have a: "1 < length (split_on nl (''x'' @ [nl] @ '' // eval(y)''))"
    by (simp add: nl_def)
  have b: "comment_led (split_on nl (''x'' @ [nl] @ '' // eval(y)'') ! 1)"
    by (simp add: nl_def comment_led_def comment_leaders_def js_space_def code_def)
  define found where "found = fst (analyzeFile fresh ''app.js'' (''x'' @ [nl] @ '' // eval(y)'') ''info'')"
  have "\<forall>f\<in>set found. \<forall>r\<in>set rules. ruleId f = rid r \<and> \<not> is_block r \<longrightarrow> line f \<noteq> 1 + 1"
    using comment_lines_skipped [OF a b, of fresh "''app.js''" "''info''"]
    unfolding found_def by (rule conjunct1)
  then have "\<forall>f\<in>set found. \<not> (line f = 2 \<and> (\<exists>r\<in>set rules. ruleId f = rid r \<and> \<not> is_block r))"
    by fastforce
  then have "filter (\<lambda>f. line f = 2 \<and> list_ex (\<lambda>r. ruleId f = rid r \<and> \<not> is_block r) rules) found = []"
    unfolding filter_empty_conv list_ex_iff .
  then show ?thesis unfolding found_def .
qed

section \<open>Diff-scoped analysis\<close>

lemma analyzeDiff_Cons_fst:
  "fst (analyzeDiff \<sigma> (u # us) minSeverity) =
     (if kept u
      then unit_result u (the (filepath u)) (fst (analyzeFile \<sigma> (the (filepath u)) (the (content u)) minSeverity))
           # fst (analyzeDiff (snd (analyzeFile \<sigma> (the (filepath u)) (the (content u)) minSeverity)) us minSeverity)
      else fst (analyzeDiff \<sigma> us minSeverity))"
  by (simp add: kept_def split_beta)

lemma analyzeDiff_map:
  "fst (analyzeDiff \<sigma> us minSeverity) =
     map (\<lambda>u. unit_result u (the (filepath u))
                 (fst (analyzeFile \<sigma>' (the (filepath u)) (the (content u)) minSeverity)))
         (filter kept us)"
proof (induction us arbitrary: \<sigma>)
  case Nil
  show ?case by simp
next
  case (Cons u us)
  show ?case
    using Cons.IH analyzeFile_fst_indep [of \<sigma> _ _ minSeverity \<sigma>']
    by (simp add: analyzeDiff_Cons_fst del: analyzeDiff.simps)
qed

lemma unit_result_path: "rfilepath (unit_result u path found) = path"
  by (auto simp: unit_result_def split: option.splits)

text \<open>
  C3. The results correspond one to one, in order, to the units that are not skipped. For
  a unit with a non-empty changed-line set every finding of its result lies on a line of
  that set (the result holds exactly the findings of \<open>analyzeFile\<close> on such lines); for a
  unit with no changed-line set, or an empty one, the result holds all the findings of
  \<open>analyzeFile\<close>.
\<close>

theorem analyzeDiff_changed_lines:
  "list_all2
     (\<lambda>u res.
        (\<forall>cl. changedLines u = Some cl \<and> cl \<noteq> [] \<longrightarrow>
           (\<forall>f\<in>set (issues res). line f \<in> set cl)
           \<and> issues res = filter (\<lambda>f. line f \<in> set cl)
                             (fst (analyzeFile \<sigma>' (the (filepath u)) (the (content u)) minSeverity)))
        \<and> (changedLines u = None \<or> changedLines u = Some [] \<longrightarrow>
             issues res = fst (analyzeFile \<sigma>' (the (filepath u)) (the (content u)) minSeverity)))
     (filter kept us) (fst (analyzeDiff \<sigma> us minSeverity))"
proof -
  have "\<forall>u\<in>set (filter kept us).
      (\<forall>cl. changedLines u = Some cl \<and> cl \<noteq> [] \<longrightarrow>
           (\<forall>f\<in>set (issues (unit_result u (the (filepath u))
                 (fst (analyzeFile \<sigma>' (the (filepath u)) (the (content u)) minSeverity)))). line f \<in> set cl)
           \<and> issues (unit_result u (the (filepath u))
                 (fst (analyzeFile \<sigma>' (the (filepath u)) (the (content u)) minSeverity)))
               = filter (\<lambda>f. line f \<in> set cl)
                             (fst (analyzeFile \<sigma>' (the (filepath u)) (the (content u)) minSeverity)))
        \<and> (changedLines u = None \<or> changedLines u = Some [] \<longrightarrow>
             issues (unit_result u (the (filepath u))
                 (fst (analyzeFile \<sigma>' (the (filepath u)) (the (content u)) minSeverity)))
              = fst (analyzeFile \<sigma>' (the (filepath u)) (the (content u)) minSeverity))"
    by (auto simp: unit_result_def)
  then show ?thesis
    unfolding analyzeDiff_map [of \<sigma> us minSeverity \<sigma>']
    by (simp add: list_all2_map2 list_all2_same)
qed

lemma marked_lines:
  "map line (fst (analyzeFile fresh ''notes.txt'' (''x // TODO: y'' @ [nl] @ ''z // FIXME: w'') ''info'')) = [1, 2]"
  by code_simp

text \<open>Witness: two marked lines, of which only the second was changed.\<close>

theorem analyzeDiff_changed_lines_witness:
  "map (\<lambda>res. map line (issues res))
     (fst (analyzeDiff fresh
        [\<lparr>filepath = Some ''notes.txt'', content = Some (''x // TODO: y'' @ [nl] @ ''z // FIXME: w''),
          changedLines = Some [2]\<rparr>]
        ''info'')) = [[2]]"
proof -
  let ?u = "\<lparr>filepath = Some ''notes.txt'', content = Some (''x // TODO: y'' @ [nl] @ ''z // FIXME: w''),
          changedLines = Some [2]\<rparr>"
  have k: "filter kept [?u] = [?u]"
    by (simp add: kept_def falsy_def)
  from analyzeDiff_changed_lines [where \<sigma> = fresh and us = "[?u]" and minSeverity = "''info''" and \<sigma>' = fresh]
  obtain res where res: "fst (analyzeDiff fresh [?u] ''info'') = [res]"
    and p: "issues res = filter (\<lambda>f. line f \<in> set [2])
              (fst (analyzeFile fresh ''notes.txt'' (''x // TODO: y'' @ [nl] @ ''z // FIXME: w'') ''info''))"
    unfolding k by (auto simp: list_all2_Cons1)
  have "map line (issues res) = filter (\<lambda>n. n \<in> set [2])
      (map line (fst (analyzeFile fresh ''notes.txt'' (''x // TODO: y'' @ [nl] @ ''z // FIXME: w'') ''info'')))"
    unfolding p by (simp add: filter_map comp_def)
  then have "map line (issues res) = [2]"
    unfolding marked_lines by simp
  then show ?thesis unfolding res by simp
qed

text \<open>
  C6, as the code has it. There is exactly one result per unit whose path and content are
  both present and non-empty, in input order, with the unit's path and its (possibly
  filtered) findings, also when there are no findings; a unit whose path or content is
  missing or the empty string gets no result.
\<close>

theorem analyzeDiff_one_result_per_kept_unit:
  "fst (analyzeDiff \<sigma> us minSeverity) =
     map (\<lambda>u. unit_result u (the (filepath u))
                 (fst (analyzeFile \<sigma>' (the (filepath u)) (the (content u)) minSeverity)))
         (filter kept us)
   \<and> map rfilepath (fst (analyzeDiff \<sigma> us minSeverity)) = map (\<lambda>u. the (filepath u)) (filter kept us)
   \<and> length (fst (analyzeDiff \<sigma> us minSeverity)) = length (filter kept us)"
proof -
  have "fst (analyzeDiff \<sigma> us minSeverity) =
     map (\<lambda>u. unit_result u (the (filepath u))
                 (fst (analyzeFile \<sigma>' (the (filepath u)) (the (content u)) minSeverity)))
         (filter kept us)"
    by (rule analyzeDiff_map)
  then show ?thesis by (simp add: unit_result_path comp_def)
qed

text \<open>Witness: of two units, only the one with content gets a result.\<close>

theorem analyzeDiff_one_result_per_kept_unit_witness:
  "map rfilepath (fst (analyzeDiff fresh
      [\<lparr>filepath = Some ''notes.txt'', content = Some ''x'', changedLines = None\<rparr>,
       \<lparr>filepath = Some ''app.js'', content = Some [], changedLines = None\<rparr>] ''error''))
   = [''notes.txt'']"
proof -
  let ?us = "[\<lparr>filepath = Some ''notes.txt'', content = Some ''x'', changedLines = None\<rparr>,
       \<lparr>filepath = Some ''app.js'', content = Some [], changedLines = None\<rparr>]"
  have k: "filter kept ?us = [\<lparr>filepath = Some ''notes.txt'', content = Some ''x'', changedLines = None\<rparr>]"
    by (simp add: kept_def falsy_def)
  have "map rfilepath (fst (analyzeDiff fresh ?us ''error'')) = map (\<lambda>u. the (filepath u)) (filter kept ?us)"
    using analyzeDiff_one_result_per_kept_unit [of fresh ?us "''error''" fresh] by blast
  then show ?thesis unfolding k by (simp del: analyzeDiff.simps)
qed

text \<open>A unit whose content is the empty string has a path and a content, and gets no result.\<close>

theorem analyzeDiff_empty_content_counterexample:
  "length (fst (analyzeDiff fresh
      [\<lparr>filepath = Some ''app.js'', content = Some [], changedLines = None\<rparr>] ''warning''))
   \<noteq> length [\<lparr>filepath = Some ''app.js'', content = Some [], changedLines = None\<rparr>]"
  by (simp add: falsy_def)

section \<open>A final line ending\<close>

lemma scan_lines_snoc_empty:
  assumes "re_exec fl re [] = None"
  shows "fst (scan_lines r re fl msg sug cf path i (ls @ [[]]) li) = fst (scan_lines r re fl msg sug cf path i ls li)"
proof (induction ls arbitrary: i li)
  case Nil
  show ?case using assms by (simp add: line_step_def split_beta)
next
  case (Cons l ls)
  show ?case
    using Cons.IH by (simp add: scan_lines_Cons_fst del: scan_lines.simps)
qed

lemma rule_part_snoc_empty:
  assumes "r \<in> set rules"
  shows "rule_part lang minSev path (ls @ [[]]) r = rule_part lang minSev path ls r"
proof (cases "rmatcher r")
  case (LineRule re fl msg sug cf)
  have "empty_ok r" using rules_empty_ok assms by (simp add: list_all_iff)
  then have "re_exec fl re [] = None" using LineRule by (simp add: empty_ok_def)
  from scan_lines_snoc_empty [OF this] show ?thesis
    using LineRule by (simp add: rule_part_def apply_rule_def split_beta)
next
  case (BlockRule chk)
  from block_rules [OF assms BlockRule] have "chk = GEN002_check" by simp
  then show ?thesis
    using BlockRule by (simp add: rule_part_def apply_rule_def GEN002_check_snoc_empty)
qed

text \<open>
  C8. A line ending at the very end of the content adds no finding: the findings for
  \<open>content + '\n'\<close> are those for \<open>content\<close>, with the same rules, lines and order.
\<close>

theorem analyzeFile_trailing_newline:
  "fst (analyzeFile \<sigma> path (source @ [nl]) minSeverity) = fst (analyzeFile \<sigma> path source minSeverity)"
proof -
  have "map (rule_part (detectLanguage path) (or_zero (SEVERITY_get minSeverity)) path (split_on nl source @ [[]])) rules
        = map (rule_part (detectLanguage path) (or_zero (SEVERITY_get minSeverity)) path (split_on nl source)) rules"
    by (rule map_cong) (simp_all add: rule_part_snoc_empty)
  then show ?thesis by (simp only: analyzeFile_concat split_on_snoc)
qed

section \<open>Purity\<close>




section \<open>The N+1 rule\<close>

text \<open>The loop and the awaited query of the repository's demonstration file, on two lines.\<close>

lemma PERF001_in_rules: "PERF001 \<in> set rules"
  by (simp add: rules_def)

lemma demo_lines:
  "split_on nl (''for (const id of ids) {'' @ [nl] @ ''  const user = await db.find({ id });'')
     = [''for (const id of ids) {'', ''  const user = await db.find({ id });'']"
  by (simp add: nl_def)

lemma demo_part:
  "rule_part (Tag ''js'') (Num 1) ''app.js''
      [''for (const id of ids) {'', ''  const user = await db.find({ id });''] PERF001 = []"
  by code_simp

lemma demo_context:
  "detectLanguage ''app.js'' = Tag ''js'' \<and> or_zero (SEVERITY_get ''warning'') = Num 1
   \<and> rid PERF001 = ''PERF001''"
  by code_simp

text \<open>
  C7 does not hold of the code. The loop header and the awaited query of the repository's
  demonstration file stand on consecutive lines, 34 characters apart. PERF001 applies to
  the file at floor \<open>warning\<close>, neither line is a comment, and the pattern matches the two
  lines taken together; yet \<open>analyzeFile\<close> returns no PERF001 finding, since the pattern
  is only ever tried on one line at a time.
\<close>

theorem PERF001_misses_across_lines:
  "pattern_hits PERF001 (''for (const id of ids) {'' @ [nl] @ ''  const user = await db.find({ id });'')
   \<and> \<not> skipped (detectLanguage ''app.js'') (or_zero (SEVERITY_get ''warning'')) PERF001
   \<and> \<not> is_comment ''for (const id of ids) {''
   \<and> \<not> is_comment ''  const user = await db.find({ id });''
   \<and> filter (\<lambda>f. ruleId f = ''PERF001'')
        (fst (analyzeFile fresh ''app.js''
           (''for (const id of ids) {'' @ [nl] @ ''  const user = await db.find({ id });'') ''warning'')) = []"
proof -
  have a: "pattern_hits PERF001 (''for (const id of ids) {'' @ [nl] @ ''  const user = await db.find({ id });'')"
    by code_simp
  have b: "\<not> skipped (detectLanguage ''app.js'') (or_zero (SEVERITY_get ''warning'')) PERF001"
    by code_simp
  have c: "\<not> is_comment ''for (const id of ids) {''" "\<not> is_comment ''  const user = await db.find({ id });''"
    by (simp_all add: is_comment_iff comment_led_def comment_leaders_def js_space_def code_def)
  have d: "filter (\<lambda>f. ruleId f = ''PERF001'')
        (fst (analyzeFile fresh ''app.js''
           (''for (const id of ids) {'' @ [nl] @ ''  const user = await db.find({ id });'') ''warning'')) = []"
    using findings_of_rule [OF PERF001_in_rules, of fresh "''app.js''"
        "''for (const id of ids) {'' @ [nl] @ ''  const user = await db.find({ id });''" "''warning''"]
    by (simp only: demo_lines demo_context demo_part)
  show ?thesis using a b c d by blast
qed

text \<open>On one line the same loop and query are reported.\<close>

lemma PERF001_hits_on_one_line:
  "map line (rule_part (Tag ''js'') (Num 1) ''app.js''
      [''for (const id of ids) { const user = await db.find({ id }); }''] PERF001) = [1]"
  by code_simp

section \<open>The summary\<close>

lemma count_issue_fields:
  "totalIssues (count_issue t f) = totalIssues t + 1"
  "errors (count_issue t f) = errors t + (if severity f = Error then 1 else 0)"
  "warnings (count_issue t f) = warnings t + (if severity f = Warning then 1 else 0)"
  "infos (count_issue t f) = infos t + (if severity f = Info then 1 else 0)"
  by (cases "severity f"; simp add: count_issue_def Let_def)+

lemma foldl_count_issue:
  "foldl count_issue t fs =
     \<lparr>totalIssues = totalIssues t + length fs,
      errors = errors t + length (filter (\<lambda>f. severity f = Error) fs),
      warnings = warnings t + length (filter (\<lambda>f. severity f = Warning) fs),
      infos = infos t + length (filter (\<lambda>f. severity f = Info) fs)\<rparr>"
proof (induction fs arbitrary: t)
  case Nil
  show ?case by simp
next
  case (Cons f fs)
  show ?case
    by (cases "severity f") (simp_all add: Cons.IH count_issue_fields)
qed

lemma foldl_results:
  "foldl (\<lambda>t result. foldl count_issue t (issues result)) t rs = foldl count_issue t (concat (map issues rs))"
  by (induction rs arbitrary: t) simp_all

lemma count_all_eq:
  "count_all rs =
     \<lparr>totalIssues = length (all_issues rs), errors = count_sev Error rs,
      warnings = count_sev Warning rs, infos = count_sev Info rs\<rparr>"
  by (simp only: count_all_def foldl_results) (simp add: foldl_count_issue all_issues_def count_sev_def)

lemma no_issues_text: "sublist ''no issues found'' (toLowerCase summary_none)"
proof -
  have "toLowerCase summary_none =
      (toLowerCase ([CHR 0xE2, CHR 0x9C, CHR 0x85] @ '' **Li Code Review**: '')) @ ''no issues found''
       @ (toLowerCase (''. Code looks good! '' @ [CHR 0xF0, CHR 0x9F, CHR 0x8E, CHR 0x89, CHR 0x0A, CHR 0x0A]
            @ ''<sub>[Li Code Review](https://lbartoszcze.github.io/li-agent/) '' @ [CHR 0xE2, CHR 0x80, CHR 0x94]
            @ '' Free AI-powered code review</sub>''))"
    by code_simp
  then show ?thesis by (metis sublist_appendI)
qed

text \<open>
  C9. With no finding at all the summary is the fixed text, which says "no issues found"
  when lower-cased. Otherwise it is the heading with the total count, then one line for
  each severity whose count is not zero, showing that count, errors first, warnings
  second, infos third, then the footer; so the total count stands in it.
\<close>

theorem generateSummary_shape:
  "generateSummary rs =
     (if all_issues rs = [] then summary_none
      else summary_head @ digits (length (all_issues rs)) @ summary_issue
           @ plural (length (all_issues rs)) @ summary_colon
           @ bucket_line summary_error_pre summary_error_post (count_sev Error rs)
           @ bucket_line summary_warning_pre summary_warning_post (count_sev Warning rs)
           @ bucket_line summary_info_pre summary_info_post (count_sev Info rs)
           @ summary_foot)
   \<and> sublist ''no issues found'' (toLowerCase summary_none)
   \<and> (all_issues rs = [] \<or> sublist (digits (length (all_issues rs))) (generateSummary rs))"
proof -
  have eq: "generateSummary rs =
     (if all_issues rs = [] then summary_none
      else summary_head @ digits (length (all_issues rs)) @ summary_issue
           @ plural (length (all_issues rs)) @ summary_colon
           @ bucket_line summary_error_pre summary_error_post (count_sev Error rs)
           @ bucket_line summary_warning_pre summary_warning_post (count_sev Warning rs)
           @ bucket_line summary_info_pre summary_info_post (count_sev Info rs)
           @ summary_foot)"
    by (simp add: generateSummary_def count_all_eq bucket_line_def Let_def del: digits.simps)
  have "all_issues rs = [] \<or> sublist (digits (length (all_issues rs))) (generateSummary rs)"
  proof (cases "all_issues rs = []")
    case True
    then show ?thesis by simp
  next
    case False
    then show ?thesis unfolding eq by (simp only: if_False) (metis sublist_appendI)
  qed
  then show ?thesis using eq no_issues_text by blast
qed

text \<open>Witness: the spec's scenario, two files with severities error, warning and info.\<close>

theorem generateSummary_shape_witness:
  "sublist (digits 3)
     (generateSummary
        [\<lparr>rfilepath = ''app.js'',
          issues = [mk_finding SEC002 1 SEC002_message SEC002_suggestion,
                    mk_finding BUG001 2 BUG001_message BUG001_suggestion]\<rparr>,
         \<lparr>rfilepath = ''lib.js'', issues = [mk_finding BUG005 1 BUG005_message BUG005_suggestion]\<rparr>])"
proof -
  let ?rs = "[\<lparr>rfilepath = ''app.js'',
          issues = [mk_finding SEC002 1 SEC002_message SEC002_suggestion,
                    mk_finding BUG001 2 BUG001_message BUG001_suggestion]\<rparr>,
         \<lparr>rfilepath = ''lib.js'', issues = [mk_finding BUG005 1 BUG005_message BUG005_suggestion]\<rparr>]"
  have n: "all_issues ?rs \<noteq> []" "length (all_issues ?rs) = 3"
    by (simp_all add: all_issues_def)
  show ?thesis using generateSummary_shape [of ?rs] n by (simp del: digits.simps)
qed

end
